theory Spec2Isabelle
  imports Complex_Main "HOL-Library.AList" "HOL-Library.Sublist" "HOL-Library.Char_ord"
    "HOL-Library.List_Lexorder"
begin

section \<open>JavaScript values used by the package manager\<close>

text \<open>
  The sources are TypeScript. A JavaScript number is modelled by \<open>jsnum\<close>: \<open>NaN\<close>, the two
  infinities, or a finite value held as an exact rational (rounding to IEEE-754 binary64 is
  not modelled; integers below \<open>2^53\<close> are exact in both). Strings are \<open>string\<close>
  (ASCII); a byte buffer and the content of a file are lists of 8-bit characters too.
\<close>

datatype jsnum = NaN | Num rat | PosInf | NegInf

type_synonym bytes = string

text \<open>\<open>a === b\<close>, \<open>a < b\<close>, \<open>a + b\<close>, \<open>a - b\<close> on numbers.\<close>

fun js_eq :: "jsnum \<Rightarrow> jsnum \<Rightarrow> bool" where
  "js_eq (Num a) (Num b) = (a = b)"
| "js_eq PosInf PosInf = True"
| "js_eq NegInf NegInf = True"
| "js_eq _ _ = False"

fun js_lt :: "jsnum \<Rightarrow> jsnum \<Rightarrow> bool" where
  "js_lt NaN _ = False"
| "js_lt _ NaN = False"
| "js_lt (Num a) (Num b) = (a < b)"
| "js_lt NegInf NegInf = False"
| "js_lt NegInf _ = True"
| "js_lt _ NegInf = False"
| "js_lt PosInf _ = False"
| "js_lt _ PosInf = True"

fun js_neg :: "jsnum \<Rightarrow> jsnum" where
  "js_neg NaN = NaN"
| "js_neg (Num a) = Num (- a)"
| "js_neg PosInf = NegInf"
| "js_neg NegInf = PosInf"

fun js_add :: "jsnum \<Rightarrow> jsnum \<Rightarrow> jsnum" where
  "js_add NaN _ = NaN"
| "js_add _ NaN = NaN"
| "js_add (Num a) (Num b) = Num (a + b)"
| "js_add PosInf NegInf = NaN"
| "js_add NegInf PosInf = NaN"
| "js_add PosInf _ = PosInf"
| "js_add NegInf _ = NegInf"
| "js_add _ PosInf = PosInf"
| "js_add _ NegInf = NegInf"

definition js_sub :: "jsnum \<Rightarrow> jsnum \<Rightarrow> jsnum" where
  "js_sub a b = js_add a (js_neg b)"

text \<open>\<open>s.split(c)\<close> for a one-character separator: one more part than separators.\<close>

fun js_split :: "char \<Rightarrow> string \<Rightarrow> string list" where
  "js_split c [] = [[]]"
| "js_split c (x # xs) =
     (if x = c then [] # js_split c xs
      else (case js_split c xs of
              [] \<Rightarrow> [[x]]
            | p # ps \<Rightarrow> (x # p) # ps))"

subsection \<open>String to number: \<open>Number(s)\<close> and unary \<open>+s\<close>\<close>

text \<open>
  The conversion of ECMAScript's \<open>StringToNumber\<close>: white space is trimmed at both ends, the
  empty string is \<open>0\<close>, then either a \<open>0x\<close>/\<open>0o\<close>/\<open>0b\<close> integer, or an optionally signed
  \<open>Infinity\<close> or decimal literal with optional fraction and exponent; everything else is
  \<open>NaN\<close>.
\<close>

definition is_ws :: "char \<Rightarrow> bool" where
  "is_ws c = (c \<in> set [CHR '' '', CHR 0x09, CHR 0x0A, CHR 0x0B, CHR 0x0C, CHR 0x0D])"

definition js_trim :: "string \<Rightarrow> string" where
  "js_trim s = rev (dropWhile is_ws (rev (dropWhile is_ws s)))"

text \<open>The code unit of a character.\<close>

definition code :: "char \<Rightarrow> nat" where
  "code c = of_char c"

definition is_digit :: "char \<Rightarrow> bool" where
  "is_digit c = (48 \<le> code c \<and> code c \<le> 57)"

definition digit_val :: "char \<Rightarrow> nat" where
  "digit_val c = code c - 48"

definition hex_val :: "char \<Rightarrow> nat option" where
  "hex_val c =
     (if is_digit c then Some (digit_val c)
      else if 97 \<le> code c \<and> code c \<le> 102 then Some (code c - 87)
      else if 65 \<le> code c \<and> code c \<le> 70 then Some (code c - 55)
      else None)"

text \<open>The value of a string of digits in a base; \<open>None\<close> when it is empty or has another
  character.\<close>

fun radix_from :: "nat \<Rightarrow> nat \<Rightarrow> string \<Rightarrow> nat option" where
  "radix_from b acc [] = Some acc"
| "radix_from b acc (c # cs) =
     (case hex_val c of
        None \<Rightarrow> None
      | Some d \<Rightarrow> if d < b then radix_from b (b * acc + d) cs else None)"

definition radix_val :: "nat \<Rightarrow> string \<Rightarrow> nat option" where
  "radix_val b s = (if s = [] then None else radix_from b 0 s)"

definition dec_val :: "string \<Rightarrow> nat option" where
  "dec_val s = radix_val 10 s"

definition non_decimal :: "string \<Rightarrow> nat option" where
  "non_decimal s =
     (case s of
        z # p # ds \<Rightarrow>
          if z \<noteq> CHR ''0'' then None
          else if p = CHR ''x'' \<or> p = CHR ''X'' then radix_val 16 ds
          else if p = CHR ''o'' \<or> p = CHR ''O'' then radix_val 8 ds
          else if p = CHR ''b'' \<or> p = CHR ''B'' then radix_val 2 ds
          else None
      | _ \<Rightarrow> None)"

definition signed_int :: "string \<Rightarrow> int option" where
  "signed_int s =
     (case s of
        [] \<Rightarrow> None
      | c # cs \<Rightarrow>
          if c = CHR ''+'' then map_option int (dec_val cs)
          else if c = CHR ''-'' then map_option (\<lambda>n. - int n) (dec_val cs)
          else map_option int (dec_val s))"

definition is_exp :: "char \<Rightarrow> bool" where
  "is_exp c = (c = CHR ''e'' \<or> c = CHR ''E'')"

definition mantissa :: "string \<Rightarrow> rat option" where
  "mantissa m =
     (let ip = takeWhile (\<lambda>c. c \<noteq> CHR ''.'') m;
          fr = dropWhile (\<lambda>c. c \<noteq> CHR ''.'') m
      in if fr = [] then map_option of_nat (dec_val ip)
         else let fp = tl fr
              in if ip = [] \<and> fp = [] then None
                 else (case (radix_from 10 0 ip, radix_from 10 0 fp) of
                         (Some a, Some b) \<Rightarrow>
                           Some (of_nat a + of_nat b / of_nat (10 ^ length fp))
                       | _ \<Rightarrow> None))"

definition scale10 :: "rat \<Rightarrow> int \<Rightarrow> rat" where
  "scale10 v e = (if 0 \<le> e then v * of_nat (10 ^ nat e) else v / of_nat (10 ^ nat (- e)))"

definition unsigned_decimal :: "string \<Rightarrow> jsnum option" where
  "unsigned_decimal s =
     (if s = ''Infinity'' then Some PosInf
      else let m = takeWhile (\<lambda>c. \<not> is_exp c) s;
               ex = dropWhile (\<lambda>c. \<not> is_exp c) s
           in (case mantissa m of
                 None \<Rightarrow> None
               | Some v \<Rightarrow>
                   if ex = [] then Some (Num v)
                   else (case signed_int (tl ex) of
                           None \<Rightarrow> None
                         | Some e \<Rightarrow> Some (Num (scale10 v e)))))"

definition str_decimal :: "string \<Rightarrow> jsnum option" where
  "str_decimal s =
     (case s of
        [] \<Rightarrow> None
      | c # cs \<Rightarrow>
          if c = CHR ''+'' then unsigned_decimal cs
          else if c = CHR ''-'' then map_option js_neg (unsigned_decimal cs)
          else unsigned_decimal s)"

definition Number_js :: "string \<Rightarrow> jsnum" where
  "Number_js s =
     (let t = js_trim s
      in if t = [] then Num 0
         else (case non_decimal t of
                 Some n \<Rightarrow> Num (of_nat n)
               | None \<Rightarrow> (case str_decimal t of Some v \<Rightarrow> v | None \<Rightarrow> NaN)))"

section \<open>Errors\<close>

text \<open>Every \<open>throw new Error(...)\<close> of the sources is a constructor; the arguments are the
  values interpolated into the message. \<open>SyntaxError\<close> is \<open>JSON.parse\<close>'s, \<open>FsError\<close> a
  rejection of a file system call (with its \<open>code\<close>), \<open>StreamFailed\<close> one of the stream
  pipeline, \<open>FetchRejected\<close> a falsy rejection of the transport, rethrown as it is.\<close>

type_synonym path = "string list"

datatype errno = ENOENT | EEXIST | EISDIR | ENOTDIR | ENOTEMPTY

datatype error =
    InvalidFormatValue string
  | InvalidFormatMajor string
  | InvalidFormatMinor string
  | MissingZipped string
  | UnexpectedZipped string
  | NotChild
  | UnsupportedCompression jsnum
  | DuplicateName string
  | DuplicateSha256 string
  | DuplicateSha1 string
  | DuplicateMd5 string
  | DuplicateUnique string
  | FailedValidate
  | SyntaxError
  | TypeError
  | NotLoaded
  | CannotWriteUnloaded
  | NotInstalled string
  | UnknownPackage string
  | NoFetch
  | InvalidResponseStatus jsnum string
  | FetchFailed string
  | FetchRejected
  | InvalidResumeStatus jsnum string
  | InvalidResumeContentLength string string
  | NegativeSize jsnum
  | InvalidDownloadStatus jsnum string
  | InvalidDownloadContentLength string string
  | StreamFailed string
  | InvalidExtractSize nat
  | InvalidSha256 string
  | FsError errno path

section \<open>The catalog's format gate: \<open>Packages._validateFormat\<close>\<close>

definition FORMAT :: string where
  "FORMAT = ''1.2''"

text \<open>\<open>parts[i]\<close> of an array of numbers: \<open>undefined\<close> out of range; compared with
  \<open>!==\<close> or \<open><\<close> an \<open>undefined\<close> behaves as \<open>NaN\<close> does.\<close>

definition num_at :: "jsnum list \<Rightarrow> nat \<Rightarrow> jsnum" where
  "num_at xs i = (if i < length xs then xs ! i else NaN)"

definition validateFormat :: "string \<Rightarrow> error + unit" where
  "validateFormat format =
     (let version = map Number_js (js_split CHR ''.'' FORMAT);
          parts = map Number_js (js_split CHR ''.'' format)
      in if length parts \<noteq> 2 then Inl (InvalidFormatValue format)
         else if \<not> js_eq (num_at parts 0) (num_at version 0) then Inl (InvalidFormatMajor format)
         else if js_lt (num_at parts 1) (num_at version 1) then Inl (InvalidFormatMinor format)
         else Inr ())"

section \<open>Stream primitives: \<open>SliceStream\<close>\<close>

text \<open>
  \<open>Buffer.subarray(b, e)\<close>: a negative index counts from the end, and both are clamped to
  the buffer. \<open>c.subarray()\<close> is \<open>subarray c 0 (blen c)\<close> and \<open>c.subarray(k)\<close> is
  \<open>subarray c k (blen c)\<close>.
\<close>

definition subarray :: "'a list \<Rightarrow> int \<Rightarrow> int \<Rightarrow> 'a list" where
  "subarray c b e =
     (let n = int (length c);
          rel = (\<lambda>k. if k < 0 then max (n + k) 0 else min k n);
          b' = rel b;
          e' = rel e
      in take (nat (e' - b')) (drop (nat b') c))"

text \<open>\<open>c.length\<close>, as a number.\<close>

definition blen :: "'a list \<Rightarrow> int" where
  "blen c = int (length c)"

text \<open>
  \<open>SliceStream._transform\<close>: from the fields \<open>start\<close>, \<open>size\<close> and the running count
  \<open>_transformed\<close> (here \<open>t\<close>) and a chunk, the new count and the chunks pushed (none or one).
  The numbers are integers (byte positions); the chunk is a list of bytes of any type.
\<close>

definition slice_transform :: "int \<Rightarrow> int \<Rightarrow> int \<Rightarrow> 'a list \<Rightarrow> int \<times> 'a list list" where
  "slice_transform start sz t c =
     (if sz = 0 then (t + blen c, [])
      else if sz < 0 then
        (let i = t - start
         in if i + blen c \<le> 0 then (t + blen c, [])
            else let (t1, c1) = (if i < 0 then (t - i, subarray c (- i) (blen c)) else (t, c))
                 in (t1 + blen c1, [subarray c1 0 (blen c1)]))
      else if start + sz \<le> t then (t + blen c, [])
      else
        (let i = t - start
         in if i + blen c \<le> 0 then (t + blen c, [])
            else let (t1, c1, i1) =
                       (if i < 0 then (t - i, subarray c (- i) (blen c), 0) else (t, c, i));
                     r = sz - i1
                 in if r < blen c1
                    then (t1 + r + (blen c1 - r), [subarray c1 0 r])
                    else (t1 + blen c1, [subarray c1 0 (blen c1)])))"

text \<open>The transform applied to the chunks of a stream in turn, collecting what is pushed.\<close>

fun slice_run :: "int \<Rightarrow> int \<Rightarrow> int \<Rightarrow> 'a list list \<Rightarrow> 'a list list" where
  "slice_run start sz t [] = []"
| "slice_run start sz t (c # cs) =
     (case slice_transform start sz t c of
        (t', out) \<Rightarrow> out @ slice_run start sz t' cs)"

text \<open>\<open>new SliceStream(start, size)\<close> starts with \<open>_transformed = 0\<close>.\<close>

definition SliceStream :: "int \<Rightarrow> int \<Rightarrow> 'a list list \<Rightarrow> 'a list list" where
  "SliceStream start sz chunks = slice_run start sz 0 chunks"


text \<open>The test suite's reader: five chunks of one MiB, byte \<open>i\<close> of each being \<open>i % 256\<close>.\<close>

definition MB :: nat where
  "MB = 1024 * 1024"

definition reader_chunk :: "nat list" where
  "reader_chunk = map (\<lambda>i. i mod 256) [0..<MB]"

definition Reader :: "nat list list" where
  "Reader = replicate 5 reader_chunk"

text \<open>The bytes at the positions \<open>p\<close> with \<open>start \<le> t + p\<close>, and \<open>t + p < start + sz\<close> when
  \<open>sz\<close> is positive; none when \<open>sz = 0\<close>.\<close>

definition window :: "int \<Rightarrow> int \<Rightarrow> int \<Rightarrow> 'a list \<Rightarrow> 'a list" where
  "window start sz t xs =
     (if sz = 0 then []
      else if sz < 0 then drop (nat (start - t)) xs
      else drop (nat (start - t)) (take (nat (start + sz - t)) xs))"

section \<open>JSON values\<close>

text \<open>What \<open>JSON.parse\<close> returns. The properties of an object are an association list
  (keys distinct).\<close>

datatype json =
    JNull
  | JBool bool
  | JNumber jsnum
  | JString string
  | JArray "json list"
  | JObject "(string \<times> json) list"

text \<open>The truth value of a parsed value in a condition (\<open>!v\<close>, \<open>v || null\<close>, \<open>v1 && v2\<close>).\<close>

fun truthy :: "json \<Rightarrow> bool" where
  "truthy JNull = False"
| "truthy (JBool b) = b"
| "truthy (JNumber n) = (n \<noteq> NaN \<and> n \<noteq> Num 0)"
| "truthy (JString s) = (s \<noteq> [])"
| "truthy (JArray xs) = True"
| "truthy (JObject kvs) = True"

text \<open>\<open>v.k\<close>: \<open>None\<close> is \<open>undefined\<close>. (The names read below are no properties of arrays or
  strings.)\<close>

fun json_prop :: "json \<Rightarrow> string \<Rightarrow> json option" where
  "json_prop (JObject kvs) k = map_of kvs k"
| "json_prop _ k = None"

text \<open>The typed views of a property that the casts \<open>as IPackagesList\<close> and
  \<open>IPackagesListPackage\<close> assume: a string, a number, an array. They are the property itself
  on a value of the declared type. On a property that is missing or of another type they give
  the empty string, \<open>NaN\<close> and the empty array, where the source goes on with the raw value;
  what is proved of catalogs below is proved of the entries that have the declared types
  (\<open>well_typed_entry\<close>).\<close>

definition str_prop :: "json \<Rightarrow> string \<Rightarrow> string" where
  "str_prop v k = (case json_prop v k of Some (JString s) \<Rightarrow> s | _ \<Rightarrow> [])"

definition num_prop :: "json \<Rightarrow> string \<Rightarrow> jsnum" where
  "num_prop v k = (case json_prop v k of Some (JNumber n) \<Rightarrow> n | _ \<Rightarrow> NaN)"

definition array_prop :: "json \<Rightarrow> string \<Rightarrow> json list" where
  "array_prop v k = (case json_prop v k of Some (JArray xs) \<Rightarrow> xs | _ \<Rightarrow> [])"

section \<open>Package tree nodes: \<open>Package\<close>\<close>

text \<open>The fields of a \<open>Package\<close> but its links: \<open>name\<close>, \<open>file\<close>, \<open>size\<close>, \<open>sha256\<close>,
  \<open>sha1\<close>, \<open>md5\<close>, \<open>source\<close>, \<open>zipped\<close> (\<open>None\<close> is \<open>null\<close>), prefixed with \<open>p_\<close>.\<close>

record pinfo =
  p_name :: string
  p_file :: string
  p_size :: jsnum
  p_sha256 :: string
  p_sha1 :: string
  p_md5 :: string
  p_source :: string
  p_zipped :: "string option"

text \<open>A \<open>Package\<close> object, seen along its \<open>parent\<close> links, and the same object with its
  child packages (\<open>packages\<close>). The object graph of the source is cyclic (a child refers to its
  parent, the parent lists the child); here a child holds its chain of ancestors and a
  \<open>ptree\<close> holds the children.\<close>

datatype package = Package (pfields: pinfo) (parent: "package option")

datatype ptree = PTree (node: package) (packages: "ptree list")

text \<open>\<open>xs.map(f)\<close> where \<open>f\<close> may throw: the first error, in order, or all the results.\<close>

fun collect :: "('e + 'a) list \<Rightarrow> 'e + 'a list" where
  "collect [] = Inr []"
| "collect (Inl e # rs) = Inl e"
| "collect (Inr x # rs) = (case collect rs of Inl e \<Rightarrow> Inl e | Inr xs \<Rightarrow> Inr (x # xs))"

text \<open>\<open>info.zipped\<close> when it is truthy: the constructor tests \<open>!zipped\<close> and stores
  \<open>zipped || null\<close>. The declared type is a string; a truthy value of another type is read as
  the empty string (the source keeps it, and \<open>zipped.split\<close> throws when it is used).\<close>

definition zipped_prop :: "json \<Rightarrow> string option" where
  "zipped_prop info =
     (case json_prop info ''zipped'' of
        None \<Rightarrow> None
      | Some z \<Rightarrow> if truthy z then Some (case z of JString s \<Rightarrow> s | _ \<Rightarrow> []) else None)"

definition fields_of :: "json \<Rightarrow> pinfo" where
  "fields_of info =
     \<lparr>p_name = str_prop info ''name'', p_file = str_prop info ''file'',
      p_size = num_prop info ''size'', p_sha256 = str_prop info ''sha256'',
      p_sha1 = str_prop info ''sha1'', p_md5 = str_prop info ''md5'',
      p_source = str_prop info ''source'', p_zipped = zipped_prop info\<rparr>"

text \<open>The child entries are smaller than the entry (for the termination of the constructor).\<close>

lemma map_of_size: "map_of kvs k = Some v \<Longrightarrow> size v < Suc (size_list (size_prod (\<lambda>_. 0) size) kvs)"
  by (induction kvs) (auto split: if_splits)

lemma array_prop_size: "x \<in> set (array_prop v k) \<Longrightarrow> size x < size v"
proof -
  assume a: "x \<in> set (array_prop v k)"
  then obtain xs where p: "json_prop v k = Some (JArray xs)" and x: "x \<in> set xs"
    by (cases "json_prop v k") (auto simp: array_prop_def split: json.splits)
  from x have "size x < size (JArray xs)"
    by (induction xs) auto
  moreover from p have "size (JArray xs) < size v"
    by (cases v) (auto dest: map_of_size)
  ultimately show ?thesis by simp
qed

text \<open>\<open>info.packages\<close> can be given to \<open>_createPackages\<close>: it is missing (the default
  parameter \<open>[]\<close> applies) or an array; on anything else \<open>infos.map\<close> throws a \<open>TypeError\<close>.\<close>

definition packages_ok :: "json \<Rightarrow> bool" where
  "packages_ok info =
     (case json_prop info ''packages'' of
        None \<Rightarrow> True
      | Some (JArray xs) \<Rightarrow> True
      | Some v \<Rightarrow> False)"

text \<open>The constructor \<open>new Package(info, parent)\<close>, with \<open>_createPackages\<close>: destructuring
  \<open>null\<close> throws a \<open>TypeError\<close>; the children are constructed in order, each with this object
  as its parent.\<close>

function newPackage :: "json \<Rightarrow> package option \<Rightarrow> error + ptree" where
  "newPackage info par =
     (if info = JNull then Inl TypeError
      else if par \<noteq> None \<and> zipped_prop info = None then Inl (MissingZipped (str_prop info ''name''))
      else if par = None \<and> zipped_prop info \<noteq> None then Inl (UnexpectedZipped (str_prop info ''name''))
      else if \<not> packages_ok info then Inl TypeError
      else let this = Package (fields_of info) par
           in (case collect (map (\<lambda>k. newPackage k (Some this)) (array_prop info ''packages'')) of
                 Inl e \<Rightarrow> Inl e
               | Inr ks \<Rightarrow> Inr (PTree this ks)))"
  by pat_completeness auto
termination
  by (relation "measure (\<lambda>(info, par). size info)") (auto simp: array_prop_size)


text \<open>The transforms \<open>install\<close> pipes the download through: \<open>zlib.createInflateRaw()\<close> and
  \<open>new SliceStream(start, size)\<close>.\<close>

datatype transform = InflateRaw | Slice jsnum jsnum

text \<open>\<open>+parts[i]\<close>: \<open>undefined\<close> converts to \<open>NaN\<close>.\<close>

definition part_num :: "string list \<Rightarrow> nat \<Rightarrow> jsnum" where
  "part_num parts i = (if i < length parts then Number_js (parts ! i) else NaN)"

definition getZippedCompression :: "package \<Rightarrow> error + jsnum" where
  "getZippedCompression p =
     (case p_zipped (pfields p) of
        None \<Rightarrow> Inl NotChild
      | Some zipped \<Rightarrow> Inr (part_num (js_split CHR ''-'' zipped) 0))"

definition getZippedSlice :: "package \<Rightarrow> error + jsnum \<times> jsnum" where
  "getZippedSlice p =
     (case p_zipped (pfields p) of
        None \<Rightarrow> Inl NotChild
      | Some zipped \<Rightarrow>
          (let parts = js_split CHR ''-'' zipped
           in Inr (part_num parts 1, part_num parts 2)))"

definition getZippedDecompressor :: "package \<Rightarrow> error + transform option" where
  "getZippedDecompressor p =
     (case getZippedCompression p of
        Inl e \<Rightarrow> Inl e
      | Inr method \<Rightarrow>
          if js_eq method (Num 0) then Inr None
          else if js_eq method (Num 8) then Inr (Some InflateRaw)
          else Inl (UnsupportedCompression method))"

text \<open>The head of \<open>Manager.install\<close>: the package and its ancestors, root first
  (\<open>for (let p = pkg.parent; p; p = p.parent) packages.push(p); packages.reverse()\<close>).\<close>

fun ancestors :: "package \<Rightarrow> package list" where
  "ancestors (Package i None) = []"
| "ancestors (Package i (Some q)) = q # ancestors q"

definition install_packages :: "package \<Rightarrow> package list" where
  "install_packages pkg = rev (pkg # ancestors pkg)"

text \<open>The first \<open>while\<close> loop, from \<open>packages[1]\<close> on: it merges the slices until a package has
  a decompressor, and returns the slice, the transforms and the packages not yet visited.\<close>

fun slice_loop ::
  "(jsnum \<times> jsnum) option \<Rightarrow> package list
     \<Rightarrow> error + (jsnum \<times> jsnum) option \<times> transform list \<times> package list" where
  "slice_loop slice [] = Inr (slice, [], [])"
| "slice_loop slice (p # ps) =
     (case getZippedSlice p of
        Inl e \<Rightarrow> Inl e
      | Inr (ss, sl) \<Rightarrow>
          (let slice' = (case slice of
                           Some (s0, s1) \<Rightarrow> Some (js_add s0 ss, sl)
                         | None \<Rightarrow> Some (ss, sl))
           in (case getZippedDecompressor p of
                 Inl e \<Rightarrow> Inl e
               | Inr (Some d) \<Rightarrow> Inr (slice', [d], ps)
               | Inr None \<Rightarrow> slice_loop slice' ps)))"

text \<open>The second \<open>while\<close> loop, over the packages the first one left.\<close>

fun transforms_loop :: "transform list \<Rightarrow> package list \<Rightarrow> error + transform list" where
  "transforms_loop transforms [] = Inr transforms"
| "transforms_loop transforms (p # ps) =
     (case getZippedSlice p of
        Inl e \<Rightarrow> Inl e
      | Inr (ss, sl) \<Rightarrow>
          (case getZippedDecompressor p of
             Inl e \<Rightarrow> Inl e
           | Inr None \<Rightarrow> transforms_loop (transforms @ [Slice ss sl]) ps
           | Inr (Some d) \<Rightarrow> transforms_loop (transforms @ [Slice ss sl] @ [d]) ps))"

text \<open>Both loops: the slice to request and the transforms.\<close>

definition install_transforms ::
  "package list \<Rightarrow> error + (jsnum \<times> jsnum) option \<times> transform list" where
  "install_transforms chain =
     (case slice_loop None (drop 1 chain) of
        Inl e \<Rightarrow> Inl e
      | Inr (slice, transforms, rest) \<Rightarrow>
          (case transforms_loop transforms rest of
             Inl e \<Rightarrow> Inl e
           | Inr ts \<Rightarrow> Inr (slice, ts)))"


text \<open>The transforms one decompressor adds: none for \<open>null\<close>.\<close>

definition layer :: "transform option \<Rightarrow> transform list" where
  "layer d = (case d of None \<Rightarrow> [] | Some t \<Rightarrow> [t])"



text \<open>An example chain: the three nested packages of the test suite (a deflated file in a
  stored archive in the root archive) and two further layers below them.\<close>

definition example_package :: "string \<Rightarrow> string option \<Rightarrow> package option \<Rightarrow> package" where
  "example_package n z par =
     Package \<lparr>p_name = n, p_file = n @ ''.bin'', p_size = Num 1, p_sha256 = n @ ''-sha256'',
              p_sha1 = n @ ''-sha1'', p_md5 = n @ ''-md5'', p_source = n, p_zipped = z\<rparr> par"

definition nested2 :: package where
  "nested2 = example_package ''package-nested-2'' None None"

definition nested1 :: package where
  "nested1 = example_package ''package-nested-1'' (Some ''0-170-171949'') (Some nested2)"

definition nested0 :: package where
  "nested0 = example_package ''package-nested'' (Some ''8-186-171223'') (Some nested1)"

definition deeper1 :: package where
  "deeper1 = example_package ''deeper-1'' (Some ''0-5-7'') (Some nested0)"

definition deeper2 :: package where
  "deeper2 = example_package ''deeper-2'' (Some ''8-1-2'') (Some deeper1)"

section \<open>The package catalog: \<open>Packages\<close>\<close>

text \<open>The fields of a \<open>Packages\<close> object (without the leading underscore): the parsed list as
  it was given, the \<open>Set\<close> of all packages in insertion order, and the five \<open>Map\<close>s, each an
  association list in insertion order.\<close>

record packages_state =
  packagesList :: "json option"
  packagesSet :: "ptree list"
  packagesByName :: "(string \<times> ptree) list"
  packagesBySha256 :: "(string \<times> ptree) list"
  packagesBySha1 :: "(string \<times> ptree) list"
  packagesByMd5 :: "(string \<times> ptree) list"
  packagesByUnique :: "(string \<times> ptree) list"

text \<open>A new object: nothing loaded.\<close>

definition new_Packages :: packages_state where
  "new_Packages =
     \<lparr>packagesList = None, packagesSet = [], packagesByName = [], packagesBySha256 = [],
      packagesBySha1 = [], packagesByMd5 = [], packagesByUnique = []\<rparr>"

definition loaded :: "packages_state \<Rightarrow> bool" where
  "loaded st = (packagesList st \<noteq> None)"

text \<open>The fields of a package of the set.\<close>

definition pkg_name :: "ptree \<Rightarrow> string" where
  "pkg_name t = p_name (pfields (node t))"

definition pkg_file :: "ptree \<Rightarrow> string" where
  "pkg_file t = p_file (pfields (node t))"

definition pkg_size :: "ptree \<Rightarrow> jsnum" where
  "pkg_size t = p_size (pfields (node t))"

definition pkg_sha256 :: "ptree \<Rightarrow> string" where
  "pkg_sha256 t = p_sha256 (pfields (node t))"

definition pkg_sha1 :: "ptree \<Rightarrow> string" where
  "pkg_sha1 t = p_sha1 (pfields (node t))"

definition pkg_md5 :: "ptree \<Rightarrow> string" where
  "pkg_md5 t = p_md5 (pfields (node t))"


text \<open>\<open>typeof v === 'object'\<close>.\<close>

definition is_object :: "json \<Rightarrow> bool" where
  "is_object v = (case v of JNull \<Rightarrow> True | JArray xs \<Rightarrow> True | JObject kvs \<Rightarrow> True | _ \<Rightarrow> False)"

text \<open>\<open>_castData\<close> and \<open>_parseData\<close>; \<open>parse\<close> is \<open>JSON.parse\<close>, \<open>None\<close> when it throws.\<close>

definition castData :: "json \<Rightarrow> error + json" where
  "castData v =
     (if \<not> truthy v \<or> \<not> is_object v
         \<or> (case json_prop v ''format'' of Some (JString f) \<Rightarrow> False | _ \<Rightarrow> True)
         \<or> (case json_prop v ''packages'' of Some (JArray xs) \<Rightarrow> False | _ \<Rightarrow> True)
      then Inl FailedValidate
      else Inr v)"

definition parseData :: "(string \<Rightarrow> json option) \<Rightarrow> string \<Rightarrow> error + json" where
  "parseData parse data =
     (case parse data of
        None \<Rightarrow> Inl SyntaxError
      | Some v \<Rightarrow> castData v)"

text \<open>\<open>_parsePackages\<close>: every root entry is constructed without a parent.\<close>

definition parsePackages :: "json list \<Rightarrow> error + ptree list" where
  "parsePackages infos = collect (map (\<lambda>info. newPackage info None) infos)"

text \<open>\<open>_listPackages\<close>: the work list \<open>itter\<close> loses its first entry (\<open>shift\<close>), which is added to
  the set \<open>r\<close>, and gets the entry's children in front (\<open>unshift\<close>). Distinct objects are distinct
  members of the set, so adding is appending.\<close>

lemma ptree_size_children: "sum_list (map size ks) < size (PTree n ks)"
  by (induction ks) auto

function listPackages_loop :: "ptree list \<Rightarrow> ptree list \<Rightarrow> ptree list" where
  "listPackages_loop r [] = r"
| "listPackages_loop r (entry # itter) =
     listPackages_loop (r @ [entry]) (packages entry @ itter)"
  by pat_completeness auto
termination
proof (relation "measure (\<lambda>(r, itter). sum_list (map size itter))")
  show "wf (measure (\<lambda>(r, itter :: ptree list). sum_list (map size itter)))" by simp
next
  fix r :: "ptree list" and entry itter
  show "((r @ [entry], packages entry @ itter), (r, entry # itter))
          \<in> measure (\<lambda>(r, itter). sum_list (map size itter))"
    using ptree_size_children [of "packages entry" "node entry"] by (cases entry) simp
qed

definition listPackages :: "ptree list \<Rightarrow> ptree list" where
  "listPackages ps = listPackages_loop [] ps"

text \<open>\<open>_packagesMapName\<close>, \<open>_packagesMapSha256\<close>, \<open>_packagesMapSha1\<close> and \<open>_packagesMapMd5\<close> are
  one loop over the set, with the key and the error of each: \<open>r.has(key)\<close> throws, otherwise
  \<open>r.set(key, entry)\<close> adds a new key at the end.\<close>

fun packagesMap_loop ::
  "(ptree \<Rightarrow> string) \<Rightarrow> (string \<Rightarrow> error) \<Rightarrow> (string \<times> ptree) list \<Rightarrow> ptree list
     \<Rightarrow> error + (string \<times> ptree) list" where
  "packagesMap_loop key err r [] = Inr r"
| "packagesMap_loop key err r (entry # es) =
     (if map_of r (key entry) \<noteq> None then Inl (err (key entry))
      else packagesMap_loop key err (r @ [(key entry, entry)]) es)"

definition packagesMapName :: "ptree list \<Rightarrow> error + (string \<times> ptree) list" where
  "packagesMapName ps = packagesMap_loop pkg_name DuplicateName [] ps"

definition packagesMapSha256 :: "ptree list \<Rightarrow> error + (string \<times> ptree) list" where
  "packagesMapSha256 ps = packagesMap_loop pkg_sha256 DuplicateSha256 [] ps"

definition packagesMapSha1 :: "ptree list \<Rightarrow> error + (string \<times> ptree) list" where
  "packagesMapSha1 ps = packagesMap_loop pkg_sha1 DuplicateSha1 [] ps"

definition packagesMapMd5 :: "ptree list \<Rightarrow> error + (string \<times> ptree) list" where
  "packagesMapMd5 ps = packagesMap_loop pkg_md5 DuplicateMd5 [] ps"

text \<open>\<open>_packagesMapUnique\<close>: the inner loop over the four keys of one entry, and the loop over the
  set.\<close>

fun unique_inner ::
  "(string \<times> ptree) list \<Rightarrow> ptree \<Rightarrow> string list \<Rightarrow> error + (string \<times> ptree) list" where
  "unique_inner r entry [] = Inr r"
| "unique_inner r entry (unique # us) =
     (if map_of r unique \<noteq> None then Inl (DuplicateUnique unique)
      else unique_inner (r @ [(unique, entry)]) entry us)"

fun unique_loop :: "(string \<times> ptree) list \<Rightarrow> ptree list \<Rightarrow> error + (string \<times> ptree) list" where
  "unique_loop r [] = Inr r"
| "unique_loop r (entry # es) =
     (case unique_inner r entry [pkg_name entry, pkg_sha256 entry, pkg_sha1 entry, pkg_md5 entry] of
        Inl e \<Rightarrow> Inl e
      | Inr r' \<Rightarrow> unique_loop r' es)"

definition packagesMapUnique :: "ptree list \<Rightarrow> error + (string \<times> ptree) list" where
  "packagesMapUnique ps = unique_loop [] ps"

text \<open>\<open>_setPackagesList\<close>: the fields are assigned after everything that can throw; the result
  carries the state the object is left in.\<close>

definition setPackagesList :: "json \<Rightarrow> packages_state \<Rightarrow> (error + unit) \<times> packages_state" where
  "setPackagesList pl st =
     (case validateFormat (str_prop pl ''format'') of
        Inl e \<Rightarrow> (Inl e, st)
      | Inr u \<Rightarrow>
     (case parsePackages (array_prop pl ''packages'') of
        Inl e \<Rightarrow> (Inl e, st)
      | Inr parsed \<Rightarrow>
     (let ps = listPackages parsed
      in (case packagesMapName ps of
        Inl e \<Rightarrow> (Inl e, st)
      | Inr byName \<Rightarrow>
     (case packagesMapSha256 ps of
        Inl e \<Rightarrow> (Inl e, st)
      | Inr bySha256 \<Rightarrow>
     (case packagesMapSha1 ps of
        Inl e \<Rightarrow> (Inl e, st)
      | Inr bySha1 \<Rightarrow>
     (case packagesMapMd5 ps of
        Inl e \<Rightarrow> (Inl e, st)
      | Inr byMd5 \<Rightarrow>
     (case packagesMapUnique ps of
        Inl e \<Rightarrow> (Inl e, st)
      | Inr byUnique \<Rightarrow>
          (Inr (),
           st\<lparr>packagesList := Some pl, packagesSet := ps, packagesByName := byName,
              packagesBySha256 := bySha256, packagesBySha1 := bySha1,
              packagesByMd5 := byMd5, packagesByUnique := byUnique\<rparr>)))))))))"

text \<open>\<open>IPackageUpdated\<close> and the report of \<open>update\<close>.\<close>

record package_updated =
  u_name :: string
  u_file :: string
  u_size :: jsnum
  u_sha256 :: string

record update_report =
  updated :: "package_updated list"
  added :: "package_updated list"
  removed :: "package_updated list"

definition summary :: "ptree \<Rightarrow> package_updated" where
  "summary pkg =
     \<lparr>u_name = pkg_name pkg, u_file = pkg_file pkg, u_size = pkg_size pkg,
      u_sha256 = pkg_sha256 pkg\<rparr>"

text \<open>The generator \<open>packages()\<close> yields the members of the set it started with; the set is not
  replaced while \<open>update\<close> iterates.\<close>

definition packages_iter :: "packages_state \<Rightarrow> ptree list" where
  "packages_iter st = packagesSet st"

text \<open>\<open>Packages.update\<close>: the map of the current packages by name (\<open>map.set\<close> replaces the value
  of a key in place or adds the key at the end); the loop over the new packages, which looks
  each name up, deletes it from the map, and sorts the package into \<open>added\<close> or \<open>updated\<close>; what
  is left in the map is \<open>removed\<close>.\<close>

fun map_current :: "(string \<times> package_updated) list \<Rightarrow> ptree list \<Rightarrow> (string \<times> package_updated) list" where
  "map_current m [] = m"
| "map_current m (pkg # ps) = map_current (AList.update (pkg_name pkg) (summary pkg) m) ps"

fun changes_loop ::
  "(string \<times> package_updated) list \<Rightarrow> package_updated list \<Rightarrow> package_updated list \<Rightarrow> ptree list
     \<Rightarrow> (string \<times> package_updated) list \<times> package_updated list \<times> package_updated list" where
  "changes_loop m upd add [] = (m, upd, add)"
| "changes_loop m upd add (pkg # ps) =
     (let obj = summary pkg;
          before = map_of m (u_name obj);
          m' = AList.delete (u_name obj) m
      in (case before of
            None \<Rightarrow> changes_loop m' upd (add @ [obj]) ps
          | Some b \<Rightarrow>
              if u_sha256 b \<noteq> u_sha256 obj \<or> \<not> js_eq (u_size b) (u_size obj)
                 \<or> u_file b \<noteq> u_file obj
              then changes_loop m' (upd @ [obj]) add ps
              else changes_loop m' upd add ps))"

definition update ::
  "(string \<Rightarrow> json option) \<Rightarrow> string \<Rightarrow> packages_state
     \<Rightarrow> (error + update_report) \<times> packages_state" where
  "update parse data st =
     (let m = map_current [] (packages_iter st)
      in (case parseData parse data of
            Inl e \<Rightarrow> (Inl e, st)
          | Inr pl \<Rightarrow>
              (case setPackagesList pl st of
                 (Inl e, st') \<Rightarrow> (Inl e, st')
               | (Inr u, st') \<Rightarrow>
                   (case changes_loop m [] [] (packages_iter st') of
                      (m', upd, add) \<Rightarrow>
                        (Inr \<lparr>updated = upd, added = add, removed = map snd m'\<rparr>, st')))))"

text \<open>The flattened forest of a parsed catalog: every entry followed by its subtree, and the
  same traversal of the constructed packages.\<close>

function flatten_entry :: "json \<Rightarrow> json list" where
  "flatten_entry info = info # concat (map flatten_entry (array_prop info ''packages''))"
  by pat_completeness auto
termination
  by (relation "measure size") (auto simp: array_prop_size)

definition flatten_entries :: "json list \<Rightarrow> json list" where
  "flatten_entries infos = concat (map flatten_entry infos)"

declare flatten_entry.simps [simp del]
declare newPackage.simps [simp del]

fun preorder :: "ptree \<Rightarrow> ptree list" where
  "preorder (PTree n ks) = PTree n ks # concat (map preorder ks)"

text \<open>All the entries of a parsed catalog, and what \<open>update\<close> reports of an entry.\<close>

definition catalog_entries :: "json \<Rightarrow> json list" where
  "catalog_entries v = flatten_entries (array_prop v ''packages'')"

definition entry_summary :: "json \<Rightarrow> package_updated" where
  "entry_summary j =
     \<lparr>u_name = str_prop j ''name'', u_file = str_prop j ''file'', u_size = num_prop j ''size'',
      u_sha256 = str_prop j ''sha256''\<rparr>"

text \<open>An entry has the types \<open>IPackagesListPackage\<close> declares: the six strings, the number
  (\<open>JSON.parse\<close> gives no \<open>NaN\<close>), \<open>zipped\<close> a string when present, \<open>packages\<close> an array of such
  entries when present. A catalog has the declared types when its entries have.\<close>

definition is_string :: "json option \<Rightarrow> bool" where
  "is_string v = (case v of Some (JString s) \<Rightarrow> True | _ \<Rightarrow> False)"

function well_typed_entry :: "json \<Rightarrow> bool" where
  "well_typed_entry info =
     (list_all (\<lambda>k. is_string (json_prop info k))
        [''name'', ''file'', ''sha256'', ''sha1'', ''md5'', ''source'']
      \<and> (case json_prop info ''size'' of Some (JNumber n) \<Rightarrow> n \<noteq> NaN | _ \<Rightarrow> False)
      \<and> (json_prop info ''zipped'' = None \<or> is_string (json_prop info ''zipped''))
      \<and> packages_ok info
      \<and> list_all well_typed_entry (array_prop info ''packages''))"
  by pat_completeness auto
termination
  by (relation "measure size") (auto simp: array_prop_size)

declare well_typed_entry.simps [simp del]

definition well_typed_catalog :: "json \<Rightarrow> bool" where
  "well_typed_catalog v = list_all well_typed_entry (array_prop v ''packages'')"


text \<open>Whether the map of the current packages holds the name of a package with another
  \<open>sha256\<close>, \<open>size\<close> or \<open>file\<close>: the test of \<open>update\<close>'s second loop.\<close>

definition changed :: "(string \<times> package_updated) list \<Rightarrow> ptree \<Rightarrow> bool" where
  "changed m p =
     (case map_of m (pkg_name p) of
        None \<Rightarrow> False
      | Some b \<Rightarrow> u_sha256 b \<noteq> pkg_sha256 p \<or> \<not> js_eq (u_size b) (pkg_size p)
                    \<or> u_file b \<noteq> pkg_file p)"


text \<open>Example catalogs: \<open>one\<close> has the roots \<open>a\<close> and \<open>b\<close>, \<open>b\<close> holding \<open>b-x\<close> and \<open>b-z\<close>;
  \<open>two\<close> drops \<open>a\<close> and \<open>b-z\<close>, changes the size of \<open>b\<close> and of \<open>b-x\<close> and adds \<open>b-y\<close> and
  \<open>c\<close>; \<open>duplicate\<close> uses the name \<open>a\<close> for a root and for a child of another root.\<close>

definition example_entry :: "string \<Rightarrow> nat \<Rightarrow> string option \<Rightarrow> json list \<Rightarrow> json" where
  "example_entry n sz z kids =
     JObject ([(''name'', JString n), (''file'', JString (n @ ''.bin'')),
               (''size'', JNumber (Num (of_nat sz))), (''sha256'', JString (n @ ''-sha256'')),
               (''sha1'', JString (n @ ''-sha1'')), (''md5'', JString (n @ ''-md5'')),
               (''source'', JString (''/'' @ n)), (''packages'', JArray kids)]
              @ (case z of None \<Rightarrow> [] | Some s \<Rightarrow> [(''zipped'', JString s)]))"

definition example_catalog1 :: json where
  "example_catalog1 =
     JObject [(''format'', JString ''1.2''),
              (''packages'', JArray [example_entry ''a'' 10 None [],
                                     example_entry ''b'' 20 None
                                       [example_entry ''b-x'' 5 (Some ''0-1-5'') [],
                                        example_entry ''b-z'' 7 (Some ''0-6-7'') []]])]"

definition example_catalog2 :: json where
  "example_catalog2 =
     JObject [(''format'', JString ''1.3''),
              (''packages'', JArray [example_entry ''b'' 21 None
                                       [example_entry ''b-x'' 6 (Some ''0-1-6'') [],
                                        example_entry ''b-y'' 4 (Some ''8-7-4'') []],
                                     example_entry ''c'' 30 None []])]"

definition example_duplicate :: json where
  "example_duplicate =
     JObject [(''format'', JString ''1.2''),
              (''packages'', JArray [example_entry ''a'' 10 None [],
                                     example_entry ''b'' 20 None
                                       [example_entry ''a'' 5 (Some ''0-1-5'') []]])]"

definition example_parse :: "string \<Rightarrow> json option" where
  "example_parse s =
     (if s = ''one'' then Some example_catalog1
      else if s = ''two'' then Some example_catalog2
      else if s = ''duplicate'' then Some example_duplicate
      else None)"

definition example_loaded :: packages_state where
  "example_loaded = snd (setPackagesList example_catalog1 new_Packages)"

section \<open>The file system\<close>

text \<open>A file system is an association list from paths to entries; a path is the list of its
  components from the working directory, and the empty path is the working directory itself.
  Permissions, links and input/output failures are not modelled.\<close>

datatype entry = File bytes | Dir

type_synonym filesys = "(path \<times> entry) list"

text \<open>The calls that change the file system: \<open>rm(p, {recursive: true, force: true})\<close>,
  \<open>rm(p, {force: true})\<close>, \<open>mkdir(p, {recursive: true})\<close>, \<open>open(p, 'wx')\<close>, a write of the
  output stream to the open file, \<open>fd.close()\<close>, \<open>writeFile(p, data, {flag: 'wx'})\<close> and
  \<open>rename(a, b)\<close>.\<close>

datatype fsop =
    RmRf path
  | RmForce path
  | MkdirP path
  | OpenWx path
  | Append path bytes
  | Close path
  | WriteFileWx path bytes
  | Rename path path

text \<open>\<open>path.join(p, ...parts)\<close> on POSIX, for a normalised relative path \<open>p\<close>: the parts are
  split at \<open>/\<close>; an empty segment and \<open>.\<close> are dropped, and \<open>..\<close> removes the segment before it
  (at the start of the path it stays).\<close>

fun norm_step :: "path \<Rightarrow> string \<Rightarrow> path" where
  "norm_step acc seg =
     (if seg = [] \<or> seg = ''.'' then acc
      else if seg = ''..''
      then (if acc = [] \<or> last acc = ''..'' then acc @ [seg] else butlast acc)
      else acc @ [seg])"

definition pathJoin :: "path \<Rightarrow> string list \<Rightarrow> path" where
  "pathJoin p parts = foldl norm_step p (concat (map (js_split CHR ''/'') parts))"

text \<open>A path below a regular file: every call on it rejects with \<open>ENOTDIR\<close> (also \<open>rm\<close> with
  \<open>force\<close>, which ignores \<open>ENOENT\<close> only). The error for a path that does not exist.\<close>

definition file_above :: "filesys \<Rightarrow> path \<Rightarrow> bool" where
  "file_above fs p =
     list_ex (\<lambda>q. case map_of fs q of Some (File c) \<Rightarrow> True | _ \<Rightarrow> False)
       (butlast (tl (prefixes p)))"

definition missing :: "filesys \<Rightarrow> path \<Rightarrow> error" where
  "missing fs p = FsError (if file_above fs p then ENOTDIR else ENOENT) p"

text \<open>\<open>access\<close> and \<open>lstat\<close> succeed on a path that exists; \<open>readFile\<close> reads a file.\<close>

definition is_dir :: "filesys \<Rightarrow> path \<Rightarrow> bool" where
  "is_dir fs p = (p = [] \<or> map_of fs p = Some Dir)"

definition fs_exists :: "filesys \<Rightarrow> path \<Rightarrow> bool" where
  "fs_exists fs p = (p = [] \<or> map_of fs p \<noteq> None)"

definition readFile :: "filesys \<Rightarrow> path \<Rightarrow> error + bytes" where
  "readFile fs p =
     (case map_of fs p of
        None \<Rightarrow> Inl (missing fs p)
      | Some Dir \<Rightarrow> Inl (FsError EISDIR p)
      | Some (File c) \<Rightarrow> Inr c)"

text \<open>Removing a path with everything below it; creating the missing directories of a path,
  shortest first; creating a file that must not exist, in a directory that must.\<close>

definition rm_rf :: "path \<Rightarrow> filesys \<Rightarrow> filesys" where
  "rm_rf p fs = filter (\<lambda>(q, e). \<not> prefix p q) fs"

fun mkdirs :: "path \<Rightarrow> path list \<Rightarrow> filesys \<Rightarrow> error + filesys" where
  "mkdirs p [] fs = Inr fs"
| "mkdirs p (d # ds) fs =
     (case map_of fs d of
        Some (File c) \<Rightarrow> Inl (FsError (if d = p then EEXIST else ENOTDIR) d)
      | Some Dir \<Rightarrow> mkdirs p ds fs
      | None \<Rightarrow> mkdirs p ds (fs @ [(d, Dir)]))"

definition create_file :: "path \<Rightarrow> bytes \<Rightarrow> filesys \<Rightarrow> error + filesys" where
  "create_file p c fs =
     (if fs_exists fs p then Inl (FsError EEXIST p)
      else if \<not> is_dir fs (butlast p) then Inl (missing fs p)
      else Inr (fs @ [(p, File c)]))"

text \<open>What each call does, or the error it rejects with. \<open>rm\<close> rejects with \<open>ENOTDIR\<close> for a
  path below a regular file, also with \<open>force\<close>, and without \<open>recursive\<close> it rejects a
  directory. \<open>rename\<close> is only ever called on a file the caller has just created; a directory
  as its source is reported as \<open>EISDIR\<close>.\<close>

definition apply_op :: "fsop \<Rightarrow> filesys \<Rightarrow> error + filesys" where
  "apply_op op fs =
     (case op of
        RmRf p \<Rightarrow> if file_above fs p then Inl (FsError ENOTDIR p) else Inr (rm_rf p fs)
      | RmForce p \<Rightarrow>
          (case map_of fs p of
             None \<Rightarrow> if file_above fs p then Inl (FsError ENOTDIR p) else Inr fs
           | Some Dir \<Rightarrow> Inl (FsError EISDIR p)
           | Some (File c) \<Rightarrow> Inr (AList.delete p fs))
      | MkdirP p \<Rightarrow> mkdirs p (tl (prefixes p)) fs
      | OpenWx p \<Rightarrow> create_file p [] fs
      | Append p c \<Rightarrow>
          (case map_of fs p of
             Some (File c0) \<Rightarrow> Inr (AList.update p (File (c0 @ c)) fs)
           | Some Dir \<Rightarrow> Inl (FsError EISDIR p)
           | None \<Rightarrow> Inl (missing fs p))
      | Close p \<Rightarrow> Inr fs
      | WriteFileWx p c \<Rightarrow> create_file p c fs
      | Rename a b \<Rightarrow>
          (case map_of fs a of
             None \<Rightarrow> Inl (missing fs a)
           | Some Dir \<Rightarrow> Inl (FsError EISDIR a)
           | Some (File c) \<Rightarrow>
               if map_of fs b = Some Dir then Inl (FsError EISDIR b)
               else if \<not> is_dir fs (butlast b) then Inl (missing fs b)
               else Inr (AList.update b (File c) (AList.delete a fs))))"

text \<open>The names of the directories directly in a directory: \<open>readdir(p, {withFileTypes: true})\<close>
  filtered by \<open>isDirectory()\<close>.\<close>

definition subdirs :: "filesys \<Rightarrow> path \<Rightarrow> string list" where
  "subdirs fs p =
     filter (\<lambda>n. map_of fs (p @ [n]) = Some Dir)
       (remdups (map (\<lambda>(q, e). last q) (filter (\<lambda>(q, e). q \<noteq> [] \<and> butlast q = p) fs)))"


section \<open>The transport and the other collaborators\<close>

text \<open>A header value is a string, or the range \<open>bytes=${start}-${end}\<close> with its two numbers. A
  request is the URL and the headers given to \<open>fetch\<close>; of a response the sources read the
  status, the \<open>content-length\<close> header (\<open>None\<close> is \<open>null\<close>), the body (its chunks) and the
  text.\<close>

datatype hvalue = HStr string | HRange jsnum jsnum

record request =
  req_url :: string
  req_headers :: "(string \<times> hvalue) list"

record response =
  status :: jsnum
  content_length :: "string option"
  body :: "bytes list"
  res_text :: string

text \<open>What \<open>fetch\<close> rejects with: a falsy value, or an error with its message and the \<open>name\<close> and
  \<open>code\<close> of its cause.\<close>

datatype rejection = Falsy | Thrown string "(string \<times> string) option"

text \<open>The collaborators outside the repository: \<open>JSON.parse\<close> (\<open>None\<close> when it throws) and
  \<open>JSON.stringify\<close>, the SHA-256 digest in hexadecimal, the transport (its answer may depend on
  the requests made before), Node's stream pipeline from the input through the transforms (the
  buffers written to the output, and the error it rejects with, if any), and the catalog
  URL.\<close>

record env =
  JSON_parse :: "string \<Rightarrow> json option"
  JSON_stringify :: "json \<Rightarrow> string"
  sha256_hex :: "bytes \<Rightarrow> string"
  fetch_impl :: "request list \<Rightarrow> request \<Rightarrow> rejection + response"
  pipeline_impl :: "transform list \<Rightarrow> bytes list \<Rightarrow> bytes list \<times> string option"
  packagesUrl :: string

section \<open>The manager\<close>

text \<open>The constants of \<open>constants.ts\<close>.\<close>

definition META_DIR :: string where
  "META_DIR = ''.shockpkg''"

definition TEMP_DIR :: string where
  "TEMP_DIR = ''tmp''"


definition PACKAGE_FILE :: string where
  "PACKAGE_FILE = ''package.json''"

definition PACKAGES_FILE :: string where
  "PACKAGES_FILE = ''packages.json''"

text \<open>The events the manager triggers, each with the name of its package; a progress event has
  the total and the amount, a cleanup-after event whether something was removed.\<close>

datatype event =
    InstallBefore string
  | InstallAfter string
  | InstallCurrent string
  | DownloadBefore string
  | DownloadAfter string
  | DownloadProgress string jsnum nat
  | CleanupBefore string
  | CleanupAfter string bool

text \<open>The state: the fields of the \<open>Manager\<close> (\<open>path\<close>, \<open>headers\<close>, whether \<open>fetch\<close> is set, the
  \<open>Packages\<close> object) and the world it acts on: the file system, the requests made, the events
  triggered and the file system calls done, each in order.\<close>

record manager =
  m_path :: path
  m_headers :: "(string \<times> hvalue) list"
  m_fetch :: bool
  m_packages :: packages_state
  fs :: filesys
  requests :: "request list"
  events :: "event list"
  oplog :: "fsop list"

text \<open>\<open>PackageLike\<close>: a \<open>Package\<close> object or a string.\<close>

datatype package_like = PkgObj ptree | PkgStr string

text \<open>Triggering an event; doing one file system call (a call that rejects changes nothing and
  is not logged); doing calls in sequence, up to the first that rejects.\<close>

definition trigger :: "event \<Rightarrow> manager \<Rightarrow> manager" where
  "trigger ev m = m\<lparr>events := events m @ [ev]\<rparr>"

definition do_op :: "fsop \<Rightarrow> manager \<Rightarrow> (error + unit) \<times> manager" where
  "do_op op m =
     (case apply_op op (fs m) of
        Inl e \<Rightarrow> (Inl e, m)
      | Inr fs' \<Rightarrow> (Inr (), m\<lparr>fs := fs', oplog := oplog m @ [op]\<rparr>))"

fun do_ops :: "fsop list \<Rightarrow> manager \<Rightarrow> (error + unit) \<times> manager" where
  "do_ops [] m = (Inr (), m)"
| "do_ops (op # ops) m =
     (case do_op op m of
        (Inl e, m') \<Rightarrow> (Inl e, m')
      | (Inr u, m') \<Rightarrow> do_ops ops m')"

text \<open>\<open>pathTo\<close>, \<open>pathToMeta\<close> and the lookups of \<open>Packages\<close> (\<open>get(key) || null\<close>).\<close>

definition pathTo :: "manager \<Rightarrow> string list \<Rightarrow> path" where
  "pathTo m parts = pathJoin (m_path m) parts"

definition pathToMeta :: "manager \<Rightarrow> string list \<Rightarrow> path" where
  "pathToMeta m parts = pathTo m (META_DIR # parts)"

definition byName :: "packages_state \<Rightarrow> string \<Rightarrow> ptree option" where
  "byName st name = map_of (packagesByName st) name"

definition byUnique :: "packages_state \<Rightarrow> string \<Rightarrow> ptree option" where
  "byUnique st unique = map_of (packagesByUnique st) unique"

text \<open>\<open>Packages.read\<close> and \<open>readIfExists\<close>, on the file \<open>pathToMeta(packagesFile)\<close>, and
  \<open>Manager.ensureLoad\<close>, \<open>ensureLoaded\<close>. Every method of the manager starts with
  \<open>ensureLoaded\<close>, and so do the helpers it calls; once the list is loaded it stays loaded, so
  the model calls it once, at the start of each method.\<close>

definition readPackages :: "env \<Rightarrow> manager \<Rightarrow> (error + unit) \<times> manager" where
  "readPackages E m =
     (case readFile (fs m) (pathToMeta m [PACKAGES_FILE]) of
        Inl e \<Rightarrow> (Inl e, m)
      | Inr s \<Rightarrow>
          (case JSON_parse E s of
             None \<Rightarrow> (Inl SyntaxError, m)
           | Some v \<Rightarrow>
               (case castData v of
                  Inl e \<Rightarrow> (Inl e, m)
                | Inr pl \<Rightarrow>
                    (case setPackagesList pl (m_packages m) of
                       (r, st') \<Rightarrow> (r, m\<lparr>m_packages := st'\<rparr>)))))"

definition readIfExists :: "env \<Rightarrow> manager \<Rightarrow> (error + bool) \<times> manager" where
  "readIfExists E m =
     (case readPackages E m of
        (Inl (FsError ENOENT p), m') \<Rightarrow> (Inr False, m')
      | (Inl e, m') \<Rightarrow> (Inl e, m')
      | (Inr u, m') \<Rightarrow> (Inr True, m'))"

definition ensureLoad :: "env \<Rightarrow> manager \<Rightarrow> (error + unit) \<times> manager" where
  "ensureLoad E m =
     (if loaded (m_packages m) then (Inr (), m)
      else (case readIfExists E m of
              (Inl e, m') \<Rightarrow> (Inl e, m')
            | (Inr b, m') \<Rightarrow> (Inr (), m')))"

definition ensureLoaded :: "env \<Rightarrow> manager \<Rightarrow> (error + unit) \<times> manager" where
  "ensureLoaded E m =
     (case ensureLoad E m of
        (Inl e, m') \<Rightarrow> (Inl e, m')
      | (Inr u, m') \<Rightarrow> if loaded (m_packages m') then (Inr (), m') else (Inl NotLoaded, m'))"

text \<open>\<open>_asPackage\<close>, \<open>_asName\<close>, \<open>pathToPackage\<close> and \<open>pathToPackageMeta\<close>.\<close>

definition asPackage :: "manager \<Rightarrow> package_like \<Rightarrow> error + ptree" where
  "asPackage m pkg =
     (case pkg of
        PkgObj p \<Rightarrow> Inr p
      | PkgStr s \<Rightarrow>
          (case byUnique (m_packages m) s of
             None \<Rightarrow> Inl (UnknownPackage s)
           | Some p \<Rightarrow> Inr p))"

definition asName :: "manager \<Rightarrow> package_like \<Rightarrow> string" where
  "asName m pkg =
     (case pkg of
        PkgObj p \<Rightarrow> pkg_name p
      | PkgStr s \<Rightarrow>
          (case byUnique (m_packages m) s of
             None \<Rightarrow> s
           | Some p \<Rightarrow> pkg_name p))"

definition pathToPackage :: "manager \<Rightarrow> package_like \<Rightarrow> string list \<Rightarrow> path" where
  "pathToPackage m pkg parts = pathTo m (asName m pkg # parts)"

definition pathToPackageMeta :: "manager \<Rightarrow> package_like \<Rightarrow> string list \<Rightarrow> path" where
  "pathToPackageMeta m pkg parts = pathTo m (asName m pkg # META_DIR # parts)"

subsection \<open>Receipts\<close>

text \<open>\<open>Manager.receipt\<close> after \<open>ensureLoaded\<close>: any rejection of \<open>readFile\<close> or \<open>JSON.parse\<close> becomes
  \<open>null\<close>, and a falsy value throws.\<close>

definition receipt_read :: "env \<Rightarrow> manager \<Rightarrow> package_like \<Rightarrow> error + json" where
  "receipt_read E m pkg =
     (let name = asName m pkg;
          pkgf = pathToPackageMeta m (PkgStr name) [PACKAGE_FILE];
          r = (case readFile (fs m) pkgf of
                 Inl e \<Rightarrow> None
               | Inr s \<Rightarrow> JSON_parse E s)
      in (case r of
            None \<Rightarrow> Inl (NotInstalled name)
          | Some v \<Rightarrow> if truthy v then Inr v else Inl (NotInstalled name)))"

definition receipt :: "env \<Rightarrow> package_like \<Rightarrow> manager \<Rightarrow> (error + json) \<times> manager" where
  "receipt E pkg m =
     (case ensureLoaded E m of
        (Inl e, m') \<Rightarrow> (Inl e, m')
      | (Inr u, m') \<Rightarrow> (receipt_read E m' pkg, m'))"

definition isInstalled :: "env \<Rightarrow> package_like \<Rightarrow> manager \<Rightarrow> (error + bool) \<times> manager" where
  "isInstalled E pkg m =
     (case ensureLoaded E m of
        (Inl e, m') \<Rightarrow> (Inl e, m')
      | (Inr u, m') \<Rightarrow>
          (case asPackage m' pkg of
             Inl e \<Rightarrow> (Inl e, m')
           | Inr p \<Rightarrow>
               (case receipt_read E m' (PkgObj p) of
                  Inl e \<Rightarrow> (Inr False, m')
                | Inr v \<Rightarrow> (Inr True, m'))))"

text \<open>\<open>isCurrent\<close> compares four properties of the receipt with the package, by \<open>===\<close>.\<close>

definition receipt_matches :: "json \<Rightarrow> ptree \<Rightarrow> bool" where
  "receipt_matches data pkg =
     (json_prop data ''sha256'' = Some (JString (pkg_sha256 pkg))
      \<and> json_prop data ''size'' = Some (JNumber (pkg_size pkg))
      \<and> json_prop data ''file'' = Some (JString (pkg_file pkg))
      \<and> json_prop data ''name'' = Some (JString (pkg_name pkg)))"

definition isCurrent_loaded :: "env \<Rightarrow> manager \<Rightarrow> ptree \<Rightarrow> bool" where
  "isCurrent_loaded E m p =
     (case receipt_read E m (PkgObj p) of
        Inl e \<Rightarrow> False
      | Inr data \<Rightarrow> receipt_matches data p)"

definition isCurrent :: "env \<Rightarrow> package_like \<Rightarrow> manager \<Rightarrow> (error + bool) \<times> manager" where
  "isCurrent E pkg m =
     (case ensureLoaded E m of
        (Inl e, m') \<Rightarrow> (Inl e, m')
      | (Inr u, m') \<Rightarrow>
          (case asPackage m' pkg of
             Inl e \<Rightarrow> (Inl e, m')
           | Inr p \<Rightarrow> (Inr (isCurrent_loaded E m' p), m')))"


subsection \<open>Requests\<close>

text \<open>One call of \<open>fetch\<close>; \<open>retry(f) = f().catch(async () => f())\<close>; and the expression
  \<open>retry(async () => fetch(url, init)).catch(...)\<close> of the three call sites, which rethrows a
  falsy rejection and wraps any other in an error with \<open>_fetchErrorMessage\<close>.\<close>

definition do_fetch :: "env \<Rightarrow> request \<Rightarrow> manager \<Rightarrow> (rejection + response) \<times> manager" where
  "do_fetch E req m = (fetch_impl E (requests m) req, m\<lparr>requests := requests m @ [req]\<rparr>)"

definition retry :: "env \<Rightarrow> request \<Rightarrow> manager \<Rightarrow> (rejection + response) \<times> manager" where
  "retry E req m =
     (case do_fetch E req m of
        (Inl err, m') \<Rightarrow> do_fetch E req m'
      | (Inr res, m') \<Rightarrow> (Inr res, m'))"

definition fetchErrorMessage :: "string \<Rightarrow> (string \<times> string) option \<Rightarrow> string" where
  "fetchErrorMessage message cause =
     (case cause of
        None \<Rightarrow> message
      | Some (cname, ccode) \<Rightarrow>
          (let info = (if cname \<noteq> [] \<and> ccode \<noteq> [] then cname @ '' '' @ ccode
                       else cname @ ccode)
           in if info \<noteq> [] then message @ '' ('' @ info @ '')'' else message))"

definition request_retry :: "env \<Rightarrow> request \<Rightarrow> manager \<Rightarrow> (error + response) \<times> manager" where
  "request_retry E req m =
     (case retry E req m of
        (Inl Falsy, m') \<Rightarrow> (Inl FetchRejected, m')
      | (Inl (Thrown message cause), m') \<Rightarrow> (Inl (FetchFailed (fetchErrorMessage message cause)), m')
      | (Inr res, m') \<Rightarrow> (Inr res, m'))"



subsection \<open>Install\<close>

text \<open>\<open>!(cl && +cl !== n)\<close>: the header is absent, or empty, or equal to \<open>n\<close>.\<close>

definition check_length :: "string option \<Rightarrow> jsnum \<Rightarrow> bool" where
  "check_length cl n =
     (case cl of
        None \<Rightarrow> True
      | Some s \<Rightarrow> s = [] \<or> js_eq (Number_js s) n)"

text \<open>The fetch step of \<open>install\<close>: a ranged request for a slice of positive size, an
  \<open>EmptyStream\<close> (no chunk) for size 0, a plain request without slice.\<close>

definition install_fetch ::
  "env \<Rightarrow> package \<Rightarrow> (jsnum \<times> jsnum) option \<Rightarrow> manager \<Rightarrow> (error + bytes list) \<times> manager" where
  "install_fetch E srcPkg slice m =
     (let url = p_source (pfields srcPkg)
      in (case slice of
            Some (start, sz) \<Rightarrow>
              if js_lt (Num 0) sz then
                (let init = AList.update ''Range''
                              (HRange start (js_sub (js_add start sz) (Num 1))) (m_headers m)
                 in (case request_retry E \<lparr>req_url = url, req_headers = init\<rparr> m of
                       (Inl e, m') \<Rightarrow> (Inl e, m')
                     | (Inr res, m') \<Rightarrow>
                         if \<not> js_eq (status res) (Num 206)
                         then (Inl (InvalidResumeStatus (status res) url), m')
                         else if \<not> check_length (content_length res) sz
                         then (Inl (InvalidResumeContentLength (the (content_length res)) url), m')
                         else (Inr (body res), m')))
              else if js_eq sz (Num 0) then (Inr [], m)
              else (Inl (NegativeSize sz), m)
          | None \<Rightarrow>
              (case request_retry E \<lparr>req_url = url, req_headers = m_headers m\<rparr> m of
                 (Inl e, m') \<Rightarrow> (Inl e, m')
               | (Inr res, m') \<Rightarrow>
                   if \<not> js_eq (status res) (Num 200)
                   then (Inl (InvalidDownloadStatus (status res) url), m')
                   else if \<not> check_length (content_length res) (p_size (pfields srcPkg))
                   then (Inl (InvalidDownloadContentLength (the (content_length res)) url), m')
                   else (Inr (body res), m'))))"











text \<open>The two checks after the pipeline: the bytes written and the digest of the data.\<close>

definition install_verify :: "env \<Rightarrow> ptree \<Rightarrow> nat \<Rightarrow> bytes \<Rightarrow> error + unit" where
  "install_verify E pkg written data =
     (if \<not> js_eq (Num (of_nat written)) (pkg_size pkg) then Inl (InvalidExtractSize written)
      else if sha256_hex E data \<noteq> pkg_sha256 pkg then Inl (InvalidSha256 (sha256_hex E data))
      else Inr ())"



subsection \<open>Cleanup\<close>

text \<open>\<open>name.startsWith('.')\<close>, \<open>_packageDirectories\<close>, \<open>isObsolete\<close>, \<open>remove\<close> and \<open>cleanup\<close>.\<close>

definition dotted :: "string \<Rightarrow> bool" where
  "dotted n = (case n of [] \<Rightarrow> False | c # cs \<Rightarrow> c = CHR ''.'')"

definition packageDirectories :: "manager \<Rightarrow> error + string list" where
  "packageDirectories m =
     (if \<not> is_dir (fs m) (m_path m) then Inl (FsError ENOENT (m_path m))
      else Inr (sort (filter (\<lambda>n. \<not> dotted n) (subdirs (fs m) (m_path m)))))"

definition isObsolete :: "manager \<Rightarrow> string \<Rightarrow> bool" where
  "isObsolete m pkg =
     (\<not> dotted pkg \<and> byName (m_packages m) pkg = None
      \<and> fs_exists (fs m) (pathToPackageMeta m (PkgStr pkg) []))"

definition remove :: "package_like \<Rightarrow> manager \<Rightarrow> (error + bool) \<times> manager" where
  "remove pkg m =
     (let dir = pathToPackage m pkg []
      in if \<not> fs_exists (fs m) dir then (Inr False, m)
         else (case do_ops [RmRf (pathToPackageMeta m pkg []), RmRf dir] m of
                 (Inl e, m') \<Rightarrow> (Inl e, m')
               | (Inr u, m') \<Rightarrow> (Inr True, m')))"

fun cleanup_loop ::
  "(string \<times> bool) list \<Rightarrow> string list \<Rightarrow> manager
     \<Rightarrow> (error + (string \<times> bool) list) \<times> manager" where
  "cleanup_loop list [] m = (Inr list, m)"
| "cleanup_loop list (pkg # rest) m =
     (case do_op (RmRf (pathToPackageMeta m (PkgStr pkg) [TEMP_DIR])) m of
        (Inl e, m1) \<Rightarrow> (Inl e, m1)
      | (Inr u, m1) \<Rightarrow>
          if isObsolete m1 pkg then
            (case remove (PkgStr pkg) (trigger (CleanupBefore pkg) m1) of
               (Inl e, m3) \<Rightarrow> (Inl e, m3)
             | (Inr was_removed, m3) \<Rightarrow>
                 cleanup_loop (list @ [(pkg, was_removed)]) rest
                   (trigger (CleanupAfter pkg was_removed) m3))
          else cleanup_loop list rest m1)"

definition cleanup :: "env \<Rightarrow> manager \<Rightarrow> (error + (string \<times> bool) list) \<times> manager" where
  "cleanup E m =
     (case ensureLoaded E m of
        (Inl e, m0) \<Rightarrow> (Inl e, m0)
      | (Inr u, m0) \<Rightarrow>
          (case packageDirectories m0 of
             Inl e \<Rightarrow> (Inl e, m0)
           | Inr dirs \<Rightarrow> cleanup_loop [] dirs m0))"


text \<open>An example: the catalog \<open>one\<close> is loaded, the package \<open>a\<close> is installed with an old
  payload; the directory \<open>obsolete\<close> has a meta directory and \<open>unknown-dir-empty\<close> has none. The
  transport fails on the first call and answers 200 with ten bytes on every later one.\<close>

definition example_env :: env where
  "example_env =
     \<lparr>JSON_parse = example_parse,
      JSON_stringify = (\<lambda>j. ''receipt of '' @ str_prop j ''name''),
      sha256_hex = (\<lambda>d. if d = ''0123456789'' then ''a-sha256'' else ''other''),
      fetch_impl = (\<lambda>hist req.
         if hist = [] then Inl (Thrown ''socket hang up'' (Some (''Error'', ''ECONNRESET'')))
         else Inr \<lparr>status = Num 200, content_length = Some ''10'',
                   body = [''01234'', ''56789''], res_text = ''one''\<rparr>),
      pipeline_impl = (\<lambda>ts input. (input, None)),
      packagesUrl = ''https://example.com/packages.json''\<rparr>"

definition example_manager :: manager where
  "example_manager =
     \<lparr>m_path = [''shockpkg''], m_headers = [(''User-Agent'', HStr ''shockpkg'')], m_fetch = True,
      m_packages = example_loaded,
      fs = [([''shockpkg''], Dir),
            ([''shockpkg'', ''a''], Dir),
            ([''shockpkg'', ''a'', ''a.bin''], File ''old payload''),
            ([''shockpkg'', ''a'', ''.shockpkg''], Dir),
            ([''shockpkg'', ''a'', ''.shockpkg'', ''package.json''], File ''old receipt''),
            ([''shockpkg'', ''unknown-dir-empty''], Dir),
            ([''shockpkg'', ''obsolete''], Dir),
            ([''shockpkg'', ''obsolete'', ''.shockpkg''], Dir),
            ([''shockpkg'', ''obsolete'', ''.shockpkg'', ''tmp''], Dir),
            ([''shockpkg'', ''.hidden''], Dir)],
      requests = [], events = [], oplog = []\<rparr>"

text \<open>The handler given to \<open>.catch\<close> at the three call sites, as a function of the outcome it
  receives: a response passes, a falsy rejection is rethrown, any other is wrapped.\<close>

definition wrap_rejection :: "rejection + response \<Rightarrow> error + response" where
  "wrap_rejection r =
     (case r of
        Inr res \<Rightarrow> Inr res
      | Inl Falsy \<Rightarrow> Inl FetchRejected
      | Inl (Thrown message cause) \<Rightarrow> Inl (FetchFailed (fetchErrorMessage message cause)))"

text \<open>A transport that answers every call with the given status and \<open>content-length\<close>.\<close>

definition example_env_status :: "jsnum \<Rightarrow> string option \<Rightarrow> env" where
  "example_env_status st cl =
     example_env\<lparr>fetch_impl := (\<lambda>hist req.
        Inr \<lparr>status = st, content_length = cl, body = [''01234'', ''56789''],
             res_text = ''''\<rparr>)\<rparr>"

text \<open>The package \<open>a\<close> of the example catalog.\<close>

definition example_a :: ptree where
  "example_a = the (byName example_loaded ''a'')"

subsection \<open>Sequences of file system calls\<close>


text \<open>Every entry outside a directory is kept: each path of the first file system that is not
  below the directory has the same entry in the second.\<close>

definition keeps_outside :: "path \<Rightarrow> filesys \<Rightarrow> filesys \<Rightarrow> bool" where
  "keeps_outside d f f' = list_all (\<lambda>q. prefix d q \<or> map_of f' q = map_of f q) (map fst f)"





definition is_mismatch :: "error \<Rightarrow> bool" where
  "is_mismatch e = (case e of InvalidExtractSize n \<Rightarrow> True | InvalidSha256 h \<Rightarrow> True | _ \<Rightarrow> False)"





section \<open>Properties\<close>

subsection \<open>The format gate\<close>

lemmas num_defs = Number_js_def js_trim_def is_ws_def non_decimal_def str_decimal_def
  unsigned_decimal_def is_exp_def mantissa_def dec_val_def radix_val_def hex_val_def
  is_digit_def digit_val_def code_def

lemma js_split_no_sep: "c \<notin> set s \<Longrightarrow> js_split c s = [s]"
  by (induction s) auto

lemma js_split_append_sep: "c \<notin> set a \<Longrightarrow> js_split c (a @ c # b) = a # js_split c b"
  by (induction a) auto

lemma js_split_nonempty: "js_split c s \<noteq> []"
  by (induction s) (auto split: list.splits)

lemma hex_val_lt10: "hex_val c = Some d \<Longrightarrow> d < 10 \<Longrightarrow> is_digit c"
  by (auto simp: hex_val_def split: if_splits)

lemma radix10_digits: "radix_from 10 acc s = Some n \<Longrightarrow> list_all is_digit s"
  by (induction s arbitrary: acc) (auto split: option.splits if_splits dest: hex_val_lt10)

lemma dec_val_digits: "dec_val s = Some n \<Longrightarrow> s \<noteq> [] \<and> list_all is_digit s"
  by (auto simp: dec_val_def radix_val_def split: if_splits dest: radix10_digits)

lemma nondigit_chars:
  "\<not> is_digit CHR ''.''" "\<not> is_digit CHR ''+''" "\<not> is_digit CHR ''-''"
  "\<not> is_digit CHR ''x''" "\<not> is_digit CHR ''X''" "\<not> is_digit CHR ''o''" "\<not> is_digit CHR ''O''"
  "\<not> is_digit CHR ''b''" "\<not> is_digit CHR ''B''" "\<not> is_digit CHR ''I''"
  by (simp_all add: is_digit_def code_def)

lemma digit_not_ws: "is_digit c \<Longrightarrow> \<not> is_ws c"
  by (auto simp: is_digit_def is_ws_def code_def)

lemma digit_not_exp: "is_digit c \<Longrightarrow> \<not> is_exp c"
  by (auto simp: is_digit_def is_exp_def code_def)

lemma digits_trim: "s \<noteq> [] \<Longrightarrow> list_all is_digit s \<Longrightarrow> js_trim s = s"
proof -
  assume a: "s \<noteq> []" "list_all is_digit s"
  then have h: "\<not> is_ws (hd s)" "\<not> is_ws (last s)"
    by (auto simp: list_all_iff digit_not_ws)
  from a h have "dropWhile is_ws s = s" by (cases s) auto
  moreover from a h have "dropWhile is_ws (rev s) = rev s"
    by (cases "rev s") (auto simp: last_rev hd_rev)
  ultimately show ?thesis by (simp add: js_trim_def)
qed

lemma digits_takeWhile:
  "list_all is_digit s \<Longrightarrow> takeWhile (\<lambda>c. \<not> is_exp c) s = s \<and> dropWhile (\<lambda>c. \<not> is_exp c) s = []
     \<and> takeWhile (\<lambda>c. c \<noteq> CHR ''.'') s = s \<and> dropWhile (\<lambda>c. c \<noteq> CHR ''.'') s = []"
  using nondigit_chars(1) by (auto simp: list_all_iff digit_not_exp)

lemma digit_not_prefix:
  assumes "is_digit p"
  shows "p \<noteq> CHR ''x'' \<and> p \<noteq> CHR ''X'' \<and> p \<noteq> CHR ''o'' \<and> p \<noteq> CHR ''O''
    \<and> p \<noteq> CHR ''b'' \<and> p \<noteq> CHR ''B''"
  using assms nondigit_chars by blast

lemma digits_non_decimal: "list_all is_digit s \<Longrightarrow> non_decimal s = None"
proof (cases s)
  case Nil
  then show ?thesis by (simp add: non_decimal_def)
next
  case (Cons z t)
  assume d: "list_all is_digit s"
  show ?thesis
  proof (cases t)
    case Nil
    with Cons show ?thesis by (simp add: non_decimal_def)
  next
    case (Cons p ds)
    with d \<open>s = z # t\<close> have "is_digit p" by simp
    from digit_not_prefix [OF this] show ?thesis
      by (simp add: non_decimal_def \<open>s = z # t\<close> Cons)
  qed
qed

lemma Number_js_digits:
  assumes "dec_val s = Some n"
  shows "Number_js s = Num (of_nat n)"
proof -
  from assms have d: "s \<noteq> []" "list_all is_digit s" by (auto dest: dec_val_digits)
  then obtain c cs where s: "s = c # cs" by (cases s) auto
  with d have c: "is_digit c" by simp
  have inf: "s \<noteq> ''Infinity''" using d nondigit_chars by auto
  have nd: "CHR ''.'' \<notin> set s" "\<forall>c\<in>set s. \<not> is_exp c"
    using d nondigit_chars(1) by (auto simp: list_all_iff digit_not_exp)
  then have tw: "takeWhile (\<lambda>c. \<not> is_exp c) s = s" "dropWhile (\<lambda>c. \<not> is_exp c) s = []"
    "dropWhile (\<lambda>c. c \<noteq> CHR ''.'') s = []" "takeWhile (\<lambda>c. c \<noteq> CHR ''.'') s = s"
    by auto
  have "mantissa s = Some (of_nat n)"
    unfolding mantissa_def tw using assms by (simp add: Let_def)
  then have "unsigned_decimal s = Some (Num (of_nat n))"
    unfolding unsigned_decimal_def tw using inf by (simp add: Let_def)
  then have "str_decimal s = Some (Num (of_nat n))"
    using c nondigit_chars by (auto simp: str_decimal_def s)
  then show ?thesis
    using d by (simp add: Number_js_def digits_trim digits_non_decimal)
qed

lemma js_eq_Num: "js_eq x (Num n) \<longleftrightarrow> x = Num n"
  by (cases x) auto

lemma version_nums: "map Number_js (js_split CHR ''.'' FORMAT) = [Num 1, Num 2]"
  by (simp add: FORMAT_def num_defs)

lemma digits_no_dot: "dec_val s = Some n \<Longrightarrow> CHR ''.'' \<notin> set s"
  using nondigit_chars(1) by (auto dest!: dec_val_digits simp: list_all_iff)

text \<open>
  On a format string \<open>MAJOR.MINOR\<close> whose two parts are non-empty strings of decimal digits
  the gate passes if and only if \<open>MAJOR = 1\<close> and \<open>MINOR \<ge> 2\<close>, and every format string that
  does not split at \<open>.\<close> into exactly two parts is refused.
\<close>

lemma validateFormat_digits:
  "(dec_val a = Some m \<and> dec_val b = Some n \<longrightarrow>
      (validateFormat (a @ ''.'' @ b) = Inr () \<longleftrightarrow> m = 1 \<and> 2 \<le> n)) \<and>
   (length (js_split CHR ''.'' f) \<noteq> 2 \<longrightarrow> validateFormat f = Inl (InvalidFormatValue f))"
proof (intro conjI impI)
  assume h: "dec_val a = Some m \<and> dec_val b = Some n"
  then have sp: "js_split CHR ''.'' (a @ ''.'' @ b) = [a, b]"
    by (simp add: js_split_append_sep js_split_no_sep digits_no_dot)
  show "validateFormat (a @ ''.'' @ b) = Inr () \<longleftrightarrow> m = 1 \<and> 2 \<le> n"
    using h unfolding validateFormat_def version_nums sp
    by (auto simp: Number_js_digits num_at_def Let_def)
next
  assume "length (js_split CHR ''.'' f) \<noteq> 2"
  then show "validateFormat f = Inl (InvalidFormatValue f)"
    by (simp add: validateFormat_def Let_def)
qed

text \<open>The gate is exactly the three tests of the source: two parts, the first converting to 1,
  and the second not below 2.\<close>

lemma validateFormat_exact:
  "validateFormat f = Inr () \<longleftrightarrow>
     (\<exists>a b. js_split CHR ''.'' f = [a, b] \<and> Number_js a = Num 1
            \<and> \<not> js_lt (Number_js b) (Num 2))"
proof -
  have l2: "length xs = 2 \<longleftrightarrow> (\<exists>a b. xs = [a, b])" for xs :: "string list"
    by (cases xs; cases "tl xs"; cases "tl (tl xs)") auto
  show ?thesis
    unfolding validateFormat_def version_nums
    by (auto simp: Let_def num_at_def l2 js_eq_Num)
qed

text \<open>
  Claim C5. The gate is to pass only when both parts are integers, the first 1 and the second
  at least 2. The parts are converted with \<open>Number\<close>; the test of the first
  (\<open>parts[0] !== version[0]\<close>) refuses a part that is not a number, as in \<open>x.2\<close>, but the test
  of the second (\<open>parts[1] < version[1]\<close>) is false for \<open>NaN\<close>: the format \<open>1.x\<close> passes the
  gate, although \<open>x\<close> is no integer and \<open>1.1\<close> is refused.
\<close>

theorem validateFormat_accepts_NaN_minor:
  "validateFormat ''1.x'' = Inr () \<and> js_split CHR ''.'' ''1.x'' = [''1'', ''x'']
   \<and> Number_js ''x'' = NaN \<and> dec_val ''x'' = None
   \<and> validateFormat ''x.2'' = Inl (InvalidFormatMajor ''x.2'')
   \<and> validateFormat ''1.1'' = Inl (InvalidFormatMinor ''1.1'')"
  by (simp add: validateFormat_def FORMAT_def num_at_def num_defs)

subsection \<open>The byte-range filter\<close>

lemma subarray_all: "subarray c 0 (blen c) = c"
  by (simp add: subarray_def blen_def Let_def)

lemma subarray_from: "0 < k \<Longrightarrow> subarray c k (blen c) = drop (nat k) c"
  by (auto simp: subarray_def blen_def Let_def min_def)

lemma subarray_upto: "0 < r \<Longrightarrow> subarray c 0 r = take (nat r) c"
  by (auto simp: subarray_def blen_def Let_def min_def)


lemma slice_transform_zero: "slice_transform start 0 t c = (t + blen c, [])"
  by (simp add: slice_transform_def)

lemma slice_transform_open:
  assumes "sz < 0"
  shows "slice_transform start sz t c = (t + blen c, (if start - t < blen c then [drop (nat (start - t)) c] else []))"
proof -
  consider (before) "blen c \<le> start - t" | (skip) "0 < start - t" "start - t < blen c" | (inside) "start - t \<le> 0" "start - t < blen c"
    by linarith
  then show ?thesis
  proof cases
    case before
    then show ?thesis using assms by (simp add: slice_transform_def Let_def)
  next
    case skip
    then have "subarray c (start - t) (blen c) = drop (nat (start - t)) c"
      by (simp add: subarray_from)
    moreover have "blen (drop (nat (start - t)) c) = blen c - (start - t)"
      using skip by (simp add: blen_def)
    ultimately show ?thesis using assms skip
      by (simp add: slice_transform_def Let_def subarray_all)
  next
    case inside
    then show ?thesis using assms
      by (simp add: slice_transform_def Let_def subarray_all)
  qed
qed

lemma slice_transform_closed:
  assumes "0 < sz"
  shows "slice_transform start sz t c =
           (t + blen c,
            (if start + sz \<le> t \<or> blen c \<le> start - t then []
             else [take (nat (start + sz - t) - nat (start - t)) (drop (nat (start - t)) c)]))"
proof -
  consider (past) "start + sz \<le> t" | (before) "t < start + sz" "blen c \<le> start - t"
    | (skip) "t < start + sz" "0 < start - t" "start - t < blen c"
    | (inside) "t < start + sz" "start - t \<le> 0" "start - t < blen c"
    by linarith
  then show ?thesis
  proof cases
    case past
    then show ?thesis using assms by (simp add: slice_transform_def Let_def)
  next
    case before
    then show ?thesis using assms by (simp add: slice_transform_def Let_def)
  next
    case skip
    let ?c1 = "drop (nat (start - t)) c"
    have sa: "subarray c (start - t) (blen c) = ?c1"
      using skip by (simp add: subarray_from)
    have bl: "blen ?c1 = blen c - (start - t)"
      using skip by (simp add: blen_def)
    have n: "nat (start + sz - t) - nat (start - t) = nat sz"
      using skip assms by linarith
    show ?thesis
    proof (cases "sz < blen ?c1")
      case True
      then show ?thesis using assms skip sa bl n
        by (simp add: slice_transform_def Let_def subarray_upto)
    next
      case False
      then have "take (nat sz) ?c1 = ?c1" by (simp add: blen_def)
      moreover have "subarray ?c1 0 (blen c - (start - t)) = ?c1"
        using subarray_all [of ?c1] bl by simp
      ultimately show ?thesis using assms skip sa bl n False
        by (simp add: slice_transform_def Let_def)
    qed
  next
    case inside
    have n: "nat (start - t) = 0" using inside by simp
    show ?thesis
    proof (cases "sz - (t - start) < blen c")
      case True
      then show ?thesis using assms inside n
        by (simp add: slice_transform_def Let_def subarray_upto algebra_simps)
    next
      case False
      then have "take (nat (start + sz - t)) c = c" by (simp add: blen_def)
      then show ?thesis using assms inside n False
        by (simp add: slice_transform_def Let_def subarray_all algebra_simps)
    qed
  qed
qed

lemma slice_transform_window:
  "slice_transform start sz t c = (t + blen c, out) \<Longrightarrow> concat out = window start sz t c"
proof -
  assume h: "slice_transform start sz t c = (t + blen c, out)"
  consider "sz = 0" | "sz < 0" | "0 < sz" by linarith
  then show ?thesis
  proof cases
    case 1
    with h show ?thesis by (simp add: slice_transform_zero window_def)
  next
    case 2
    with h show ?thesis
      by (auto simp: slice_transform_open window_def blen_def split: if_splits)
  next
    case 3
    with h show ?thesis
      by (auto simp: slice_transform_closed window_def blen_def drop_take split: if_splits)
  qed
qed

lemma slice_transform_fst: "fst (slice_transform start sz t c) = t + blen c"
proof -
  consider "sz = 0" | "sz < 0" | "0 < sz" by linarith
  then show ?thesis
    by cases (simp_all add: slice_transform_zero slice_transform_open slice_transform_closed)
qed

lemma window_append:
  "window start sz t (c @ ys) = window start sz t c @ window start sz (t + blen c) ys"
proof -
  have a: "nat (start - t) - length c = nat (start - (t + blen c))"
    by (simp add: blen_def)
  have b: "nat (start + sz - t) - length c = nat (start + sz - (t + blen c))"
    by (simp add: blen_def)
  show ?thesis
  proof (cases "length c \<le> nat (start + sz - t)")
    case True
    then show ?thesis
      unfolding window_def using a b by (simp add: algebra_simps)
  next
    case False
    then have "nat (start + sz - (t + blen c)) = 0" by (simp add: blen_def)
    then show ?thesis
      unfolding window_def using a b False by (auto simp: algebra_simps)
  qed
qed

lemma slice_run_window:
  "concat (slice_run start sz t chunks) = window start sz t (concat chunks)"
proof (induction chunks arbitrary: t)
  case Nil
  show ?case by (simp add: window_def)
next
  case (Cons c cs)
  obtain out where st: "slice_transform start sz t c = (t + blen c, out)"
    using slice_transform_fst [of start sz t c] by (cases "slice_transform start sz t c") auto
  then show ?case
    using Cons.IH [of "t + blen c"] by (simp add: slice_transform_window window_append)
qed


lemma reader_chunk_length: "length reader_chunk = MB"
  by (simp add: reader_chunk_def)

lemma reader_concat:
  "concat Reader = reader_chunk @ reader_chunk @ reader_chunk @ reader_chunk @ reader_chunk"
  by (simp add: Reader_def numeral_eq_Suc)

lemma reader_chunk_take10: "take 10 reader_chunk = [0, 1, 2, 3, 4, 5, 6, 7, 8, 9]"
proof -
  have "take 10 [0..<MB] = [0..<10]"
    by (simp add: MB_def)
  then have "take 10 reader_chunk = map (\<lambda>i. i mod 256) [0..<10]"
    by (simp add: reader_chunk_def take_map)
  also have "\<dots> = [0, 1, 2, 3, 4, 5, 6, 7, 8, 9]"
    by (simp add: upt_rec)
  finally show ?thesis .
qed

lemma reader_2MB_10:
  "drop (2 * MB) (take (2 * MB + 10) (concat Reader)) = [0, 1, 2, 3, 4, 5, 6, 7, 8, 9]"
proof -
  have m: "10 \<le> MB" by (simp add: MB_def)
  have "drop (2 * MB) (take (2 * MB + 10) (concat Reader)) = take 10 (drop (2 * MB) (concat Reader))"
    by (simp add: drop_take)
  also have "drop (2 * MB) (concat Reader) = reader_chunk @ reader_chunk @ reader_chunk"
    by (simp add: reader_concat reader_chunk_length)
  also have "take 10 (reader_chunk @ reader_chunk @ reader_chunk) = take 10 reader_chunk"
    using m by (simp add: reader_chunk_length)
  finally show ?thesis by (simp add: reader_chunk_take10)
qed

lemma reader_4MB1_open: "length (drop (4 * MB + 1) (concat Reader)) = MB - 1"
  by (simp add: reader_concat reader_chunk_length)

text \<open>
  Claim C2. For every list of chunks, the bytes \<open>SliceStream(start, size)\<close> emits are the
  input bytes at the positions \<open>[start, start + size)\<close> when \<open>size > 0\<close>, none when
  \<open>size = 0\<close>, and all the bytes from position \<open>start\<close> on when \<open>size < 0\<close>; the result
  depends on the concatenated input only, not on how it is cut into chunks. On the
  5 x 1 MiB cyclic input, \<open>start = 2 MiB, size = 10\<close> gives the bytes \<open>0, ..., 9\<close> and
  \<open>start = 4 MiB + 1, size = -1\<close> gives \<open>MiB - 1\<close> bytes.
\<close>

theorem SliceStream_emits:
  "concat (SliceStream start sz chunks) =
     (if sz = 0 then []
      else if sz < 0 then drop (nat start) (concat chunks)
      else drop (nat start) (take (nat (start + sz)) (concat chunks)))
   \<and> concat (SliceStream (int (2 * MB)) 10 Reader) = [0, 1, 2, 3, 4, 5, 6, 7, 8, 9]
   \<and> length (concat (SliceStream (int (4 * MB + 1)) (- 1) Reader)) = MB - 1"
proof (intro conjI)
  show "concat (SliceStream start sz chunks) =
     (if sz = 0 then []
      else if sz < 0 then drop (nat start) (concat chunks)
      else drop (nat start) (take (nat (start + sz)) (concat chunks)))"
    by (simp add: SliceStream_def slice_run_window window_def)
  have "nat (int (2 * MB) + 10) = 2 * MB + 10" by simp
  then show "concat (SliceStream (int (2 * MB)) 10 Reader) = [0, 1, 2, 3, 4, 5, 6, 7, 8, 9]"
    using reader_2MB_10 by (simp add: SliceStream_def slice_run_window window_def del: of_nat_mult)
  show "length (concat (SliceStream (int (4 * MB + 1)) (- 1) Reader)) = MB - 1"
    using reader_4MB1_open
    by (simp add: SliceStream_def slice_run_window window_def del: of_nat_mult of_nat_add)
qed

text \<open>A slice that starts in one chunk and ends in the next: positions 2, 3 and 4.\<close>

theorem SliceStream_emits_witness:
  "concat (SliceStream 2 3 [[10, 11, 12], [13, 14, 15, 16], [17::nat]]) = [12, 13, 14]"
  using SliceStream_emits [of 2 3 "[[10, 11, 12], [13, 14, 15, 16], [17::nat]]"] by simp

subsection \<open>The transform chain of an install\<close>

lemma slice_loop_some:
  assumes "\<forall>p\<in>set nodes. getZippedSlice p = Inr (off p, len p)"
    and "\<forall>p\<in>set nodes. getZippedDecompressor p = Inr (dec p)"
  shows "slice_loop (Some (a, b)) nodes =
           Inr (Some (foldl js_add a
                        (map off (takeWhile (\<lambda>p. dec p = None) nodes
                                  @ take 1 (dropWhile (\<lambda>p. dec p = None) nodes))),
                      (if takeWhile (\<lambda>p. dec p = None) nodes
                            @ take 1 (dropWhile (\<lambda>p. dec p = None) nodes) = [] then b
                       else len (last (takeWhile (\<lambda>p. dec p = None) nodes
                                       @ take 1 (dropWhile (\<lambda>p. dec p = None) nodes))))),
                (case dropWhile (\<lambda>p. dec p = None) nodes of [] \<Rightarrow> [] | d # post \<Rightarrow> layer (dec d)),
                drop 1 (dropWhile (\<lambda>p. dec p = None) nodes))"
  using assms
proof (induction nodes arbitrary: a b)
  case Nil
  show ?case by simp
next
  case (Cons p ps)
  show ?case
  proof (cases "dec p")
    case None
    have "slice_loop (Some (a, b)) (p # ps) = slice_loop (Some (js_add a (off p), len p)) ps"
      using Cons.prems None by simp
    also have "\<dots> = Inr (Some (foldl js_add (js_add a (off p))
                        (map off (takeWhile (\<lambda>p. dec p = None) ps
                                  @ take 1 (dropWhile (\<lambda>p. dec p = None) ps))),
                      (if takeWhile (\<lambda>p. dec p = None) ps
                            @ take 1 (dropWhile (\<lambda>p. dec p = None) ps) = [] then len p
                       else len (last (takeWhile (\<lambda>p. dec p = None) ps
                                       @ take 1 (dropWhile (\<lambda>p. dec p = None) ps))))),
                (case dropWhile (\<lambda>p. dec p = None) ps of [] \<Rightarrow> [] | d # post \<Rightarrow> layer (dec d)),
                drop 1 (dropWhile (\<lambda>p. dec p = None) ps))"
      using Cons.prems by (intro Cons.IH) auto
    finally show ?thesis
      using None by simp
  next
    case (Some d)
    then show ?thesis using Cons.prems by (simp add: layer_def)
  qed
qed

lemma transforms_loop_all:
  assumes "\<forall>p\<in>set post. getZippedSlice p = Inr (off p, len p)"
    and "\<forall>p\<in>set post. getZippedDecompressor p = Inr (dec p)"
  shows "transforms_loop ts post =
           Inr (ts @ concat (map (\<lambda>p. Slice (off p) (len p) # layer (dec p)) post))"
  using assms
proof (induction post arbitrary: ts)
  case Nil
  show ?case by simp
next
  case (Cons p ps)
  show ?case
  proof (cases "dec p")
    case None
    then show ?thesis
      using Cons.prems Cons.IH [of "ts @ [Slice (off p) (len p)]"] by (simp add: layer_def)
  next
    case (Some d)
    then show ?thesis
      using Cons.prems Cons.IH [of "ts @ [Slice (off p) (len p)] @ [d]"] by (simp add: layer_def)
  qed
qed

lemma slice_loop_none:
  assumes "\<forall>p\<in>set nodes. getZippedSlice p = Inr (off p, len p)"
    and "\<forall>p\<in>set nodes. getZippedDecompressor p = Inr (dec p)"
  shows "slice_loop None nodes =
           Inr ((case takeWhile (\<lambda>p. dec p = None) nodes
                      @ take 1 (dropWhile (\<lambda>p. dec p = None) nodes) of
                   [] \<Rightarrow> None
                 | m # ms \<Rightarrow> Some (foldl js_add (off m) (map off ms), len (last (m # ms)))),
                (case dropWhile (\<lambda>p. dec p = None) nodes of [] \<Rightarrow> [] | d # post \<Rightarrow> layer (dec d)),
                drop 1 (dropWhile (\<lambda>p. dec p = None) nodes))"
proof (cases nodes)
  case Nil
  then show ?thesis by simp
next
  case (Cons p ps)
  have ps: "\<forall>p\<in>set ps. getZippedSlice p = Inr (off p, len p)"
    "\<forall>p\<in>set ps. getZippedDecompressor p = Inr (dec p)"
    using assms Cons by auto
  show ?thesis
  proof (cases "dec p")
    case None
    have "slice_loop None (p # ps) = slice_loop (Some (off p, len p)) ps"
      using assms Cons None by simp
    then show ?thesis
      unfolding Cons using None by (simp add: slice_loop_some [OF ps])
  next
    case (Some d)
    then show ?thesis using assms Cons by (simp add: layer_def)
  qed
qed

text \<open>
  Claim C1. Let the chain of a package be its root followed by \<open>nodes\<close>, each with slice
  \<open>(off p, len p)\<close> and decompressor \<open>dec p\<close>. The slice \<open>install\<close> requests merges the nodes up
  to and including the first one with a decompressor: the offsets are added from left to
  right and the length is the last merged node's; it is \<open>null\<close> when there is no node. The
  transforms are that first decompressor, then for every later node a \<open>SliceStream\<close> of its
  own slice followed by its own decompressor when it has one.
\<close>

theorem install_transforms_chain:
  assumes "install_packages pkg = srcPkg # nodes"
    and "\<forall>p\<in>set nodes. getZippedSlice p = Inr (off p, len p)"
    and "\<forall>p\<in>set nodes. getZippedDecompressor p = Inr (dec p)"
  shows "install_transforms (install_packages pkg) =
           Inr ((case takeWhile (\<lambda>p. dec p = None) nodes
                      @ take 1 (dropWhile (\<lambda>p. dec p = None) nodes) of
                   [] \<Rightarrow> None
                 | m # ms \<Rightarrow> Some (foldl js_add (off m) (map off ms), len (last (m # ms)))),
                (case dropWhile (\<lambda>p. dec p = None) nodes of
                   [] \<Rightarrow> []
                 | d # post \<Rightarrow>
                     layer (dec d)
                     @ concat (map (\<lambda>p. Slice (off p) (len p) # layer (dec p)) post)))"
proof -
  let ?rest = "dropWhile (\<lambda>p. dec p = None) nodes"
  let ?f = "\<lambda>p. Slice (off p) (len p) # layer (dec p)"
  let ?T = "case ?rest of [] \<Rightarrow> [] | d # post \<Rightarrow> layer (dec d)"
  have post: "\<forall>p\<in>set (drop 1 ?rest). getZippedSlice p = Inr (off p, len p)"
    "\<forall>p\<in>set (drop 1 ?rest). getZippedDecompressor p = Inr (dec p)"
    using assms(2,3) by (auto dest!: in_set_dropD set_dropWhileD)
  have t: "transforms_loop ?T (drop 1 ?rest) = Inr (?T @ concat (map ?f (drop 1 ?rest)))"
    by (rule transforms_loop_all [OF post])
  have e: "?T @ concat (map ?f (drop 1 ?rest)) =
      (case ?rest of [] \<Rightarrow> [] | d # post \<Rightarrow> layer (dec d) @ concat (map ?f post))"
  proof -
    have "\<And>xs. (case xs of [] \<Rightarrow> [] | d # post \<Rightarrow> layer (dec d)) @ concat (map ?f (drop 1 xs)) =
      (case xs of [] \<Rightarrow> [] | d # post \<Rightarrow> layer (dec d) @ concat (map ?f post))"
      by (simp split: list.splits)
    then show ?thesis .
  qed
  have d: "drop 1 (srcPkg # nodes) = nodes" by simp
  show ?thesis
    unfolding install_transforms_def assms(1) d slice_loop_none [OF assms(2,3)]
    using t e by simp
qed

text \<open>The chain of \<open>deeper2\<close>: a stored layer, a deflated one (merged: offset 170 + 186), then
  a stored and a deflated layer, each behind its own slice.\<close>

theorem install_transforms_chain_witness:
  "install_transforms (install_packages deeper2) =
     Inr (Some (Num 356, Num 171223),
          [InflateRaw, Slice (Num 5) (Num 7), Slice (Num 1) (Num 2), InflateRaw])"
proof -
  let ?off = "\<lambda>p. case getZippedSlice p of Inr (a, b) \<Rightarrow> a | Inl e \<Rightarrow> NaN"
  let ?len = "\<lambda>p. case getZippedSlice p of Inr (a, b) \<Rightarrow> b | Inl e \<Rightarrow> NaN"
  let ?dec = "\<lambda>p. case getZippedDecompressor p of Inr d \<Rightarrow> d | Inl e \<Rightarrow> None"
  have c: "install_packages deeper2 = nested2 # [nested1, nested0, deeper1, deeper2]"
    by (simp add: install_packages_def deeper2_def deeper1_def nested0_def nested1_def
        nested2_def example_package_def)
  have z: "getZippedSlice nested1 = Inr (Num 170, Num 171949)"
    "getZippedSlice nested0 = Inr (Num 186, Num 171223)"
    "getZippedSlice deeper1 = Inr (Num 5, Num 7)"
    "getZippedSlice deeper2 = Inr (Num 1, Num 2)"
    "getZippedDecompressor nested1 = Inr None"
    "getZippedDecompressor nested0 = Inr (Some InflateRaw)"
    "getZippedDecompressor deeper1 = Inr None"
    "getZippedDecompressor deeper2 = Inr (Some InflateRaw)"
    by (simp_all add: getZippedSlice_def getZippedDecompressor_def getZippedCompression_def
        part_num_def deeper2_def deeper1_def nested0_def nested1_def example_package_def num_defs)
  have s: "\<forall>p\<in>set [nested1, nested0, deeper1, deeper2]. getZippedSlice p = Inr (?off p, ?len p)"
    by (simp add: z)
  have d: "\<forall>p\<in>set [nested1, nested0, deeper1, deeper2]. getZippedDecompressor p = Inr (?dec p)"
    by (simp add: z)
  show ?thesis
    using install_transforms_chain [OF c s d] by (simp add: z layer_def)
qed

subsection \<open>The catalog: diffing and all-or-nothing loading\<close>

lemma map_of_snoc_None:
  "map_of (r @ [(k, v)]) k' = None \<longleftrightarrow> map_of r k' = None \<and> k \<noteq> k'"
  by (auto simp: map_add_def split: option.splits)

lemma packagesMap_loop_Inr:
  "packagesMap_loop key err r es = Inr r' \<Longrightarrow>
     r' = r @ map (\<lambda>e. (key e, e)) es \<and> distinct (map key es)
     \<and> (\<forall>e\<in>set es. map_of r (key e) = None)"
proof (induction es arbitrary: r)
  case Nil
  then show ?case by simp
next
  case (Cons e es)
  from Cons.prems have n: "map_of r (key e) = None"
    and rec: "packagesMap_loop key err (r @ [(key e, e)]) es = Inr r'"
    by (auto split: if_splits)
  from Cons.IH [OF rec] have
    a: "r' = (r @ [(key e, e)]) @ map (\<lambda>e. (key e, e)) es"
    and b: "distinct (map key es)"
    and c: "\<forall>x\<in>set es. map_of (r @ [(key e, e)]) (key x) = None"
    by auto
  from c have c1: "\<forall>x\<in>set es. map_of r (key x) = None" and c2: "\<forall>x\<in>set es. key e \<noteq> key x"
    by (auto simp: map_of_snoc_None)
  show ?case using a b n c1 c2 by auto
qed

lemma packagesMapName_distinct:
  "packagesMapName ps = Inr m \<Longrightarrow> distinct (map pkg_name ps)"
  unfolding packagesMapName_def by (drule packagesMap_loop_Inr) simp

lemma setPackagesList_Inr:
  assumes "setPackagesList pl st = (Inr u, st')"
  shows "distinct (map pkg_name (packagesSet st'))"
    and "packagesList st' = Some pl"
    and "setPackagesList pl st2 = (Inr u, st')"
proof -
  from assms obtain parsed byName bySha256 bySha1 byMd5 byUnique where
    v: "validateFormat (str_prop pl ''format'') = Inr ()"
    and p: "parsePackages (array_prop pl ''packages'') = Inr parsed"
    and n: "packagesMapName (listPackages parsed) = Inr byName"
    and s2: "packagesMapSha256 (listPackages parsed) = Inr bySha256"
    and s1: "packagesMapSha1 (listPackages parsed) = Inr bySha1"
    and m5: "packagesMapMd5 (listPackages parsed) = Inr byMd5"
    and un: "packagesMapUnique (listPackages parsed) = Inr byUnique"
    and st': "st' = st\<lparr>packagesList := Some pl, packagesSet := listPackages parsed,
              packagesByName := byName, packagesBySha256 := bySha256, packagesBySha1 := bySha1,
              packagesByMd5 := byMd5, packagesByUnique := byUnique\<rparr>"
    unfolding setPackagesList_def by (auto simp: Let_def split: sum.splits)
  show "distinct (map pkg_name (packagesSet st'))"
    using n st' by (simp add: packagesMapName_distinct)
  show "packagesList st' = Some pl" using st' by simp
  have "st' = st2\<lparr>packagesList := Some pl, packagesSet := listPackages parsed,
              packagesByName := byName, packagesBySha256 := bySha256, packagesBySha1 := bySha1,
              packagesByMd5 := byMd5, packagesByUnique := byUnique\<rparr>"
    unfolding st' by (cases st; cases st2) simp
  then show "setPackagesList pl st2 = (Inr u, st')"
    unfolding setPackagesList_def using v p n s2 s1 m5 un by (simp add: Let_def)
qed

lemma setPackagesList_Inl: "setPackagesList pl st = (Inl e, st') \<Longrightarrow> st' = st"
  unfolding setPackagesList_def by (auto simp: Let_def split: sum.splits)

lemma update_fresh: "k \<notin> fst ` set m \<Longrightarrow> AList.update k v m = m @ [(k, v)]"
  by (induction m) auto

lemma map_current_distinct:
  "distinct (map pkg_name ps) \<Longrightarrow> pkg_name ` set ps \<inter> fst ` set m = {} \<Longrightarrow>
     map_current m ps = m @ map (\<lambda>p. (pkg_name p, summary p)) ps"
proof (induction ps arbitrary: m)
  case Nil
  show ?case by simp
next
  case (Cons p ps)
  from Cons.prems have f: "pkg_name p \<notin> fst ` set m" by auto
  have "map_current m (p # ps) = map_current (m @ [(pkg_name p, summary p)]) ps"
    by (simp add: update_fresh [OF f])
  also have "\<dots> = (m @ [(pkg_name p, summary p)]) @ map (\<lambda>p. (pkg_name p, summary p)) ps"
    using Cons.prems by (intro Cons.IH) auto
  finally show ?case by simp
qed

lemma summary_simps:
  "u_name (summary p) = pkg_name p" "u_file (summary p) = pkg_file p"
  "u_size (summary p) = pkg_size p" "u_sha256 (summary p) = pkg_sha256 p"
  by (simp_all add: summary_def)

lemma changes_loop_eq:
  "distinct (map pkg_name ps) \<Longrightarrow>
   changes_loop m upd add ps =
     (filter (\<lambda>kv. fst kv \<notin> pkg_name ` set ps) m,
      upd @ map summary (filter (changed m) ps),
      add @ map summary (filter (\<lambda>p. map_of m (pkg_name p) = None) ps))"
proof (induction ps arbitrary: m upd add)
  case Nil
  show ?case by simp
next
  case (Cons p ps)
  let ?m' = "AList.delete (pkg_name p) m"
  have d: "distinct (map pkg_name ps)" and ne: "\<forall>q\<in>set ps. pkg_name q \<noteq> pkg_name p"
    using Cons.prems by (auto simp: image_iff)
  have look: "\<forall>q\<in>set ps. map_of ?m' (pkg_name q) = map_of m (pkg_name q)"
    using ne by (simp add: delete_conv)
  have f1: "filter (changed ?m') ps = filter (changed m) ps"
    using look by (intro filter_cong) (auto simp: changed_def)
  have f2: "filter (\<lambda>q. map_of ?m' (pkg_name q) = None) ps
          = filter (\<lambda>q. map_of m (pkg_name q) = None) ps"
    using look by (intro filter_cong) auto
  have f3: "filter (\<lambda>kv. fst kv \<notin> pkg_name ` set ps) ?m'
          = filter (\<lambda>kv. fst kv \<notin> pkg_name ` set (p # ps)) m"
    by (induction m) auto
  note ih = Cons.IH [OF d, of ?m', unfolded f1 f2 f3]
  show ?case
  proof (cases "map_of m (pkg_name p)")
    case None
    then have "\<not> changed m p" by (simp add: changed_def)
    with None show ?thesis
      by (simp add: ih summary_simps Let_def)
  next
    case (Some b)
    then have "changed m p \<longleftrightarrow>
        u_sha256 b \<noteq> pkg_sha256 p \<or> \<not> js_eq (u_size b) (pkg_size p) \<or> u_file b \<noteq> pkg_file p"
      by (simp add: changed_def)
    with Some show ?thesis
      by (simp add: ih summary_simps Let_def)
  qed
qed


lemma map_of_summaries:
  "distinct (map pkg_name old) \<Longrightarrow>
   map_of (map (\<lambda>p. (pkg_name p, summary p)) old) k =
     (case filter (\<lambda>q. pkg_name q = k) old of [] \<Rightarrow> None | q # qs \<Rightarrow> Some (summary q))"
  by (induction old) (auto simp: image_iff filter_empty_conv split: list.splits)

lemma map_of_summaries_None:
  "map_of (map (\<lambda>p. (pkg_name p, summary p)) old) k = None \<longleftrightarrow> k \<notin> pkg_name ` set old"
  by (induction old) auto

lemma changed_summaries:
  assumes "distinct (map pkg_name old)"
  shows "changed (map (\<lambda>p. (pkg_name p, summary p)) old) p \<longleftrightarrow>
    (\<exists>q\<in>set old. pkg_name q = pkg_name p \<and>
       (pkg_sha256 q \<noteq> pkg_sha256 p \<or> \<not> js_eq (pkg_size q) (pkg_size p)
        \<or> pkg_file q \<noteq> pkg_file p))"
  using assms
proof (induction old)
  case Nil
  show ?case by (simp add: changed_def)
next
  case (Cons a old)
  show ?case
  proof (cases "pkg_name a = pkg_name p")
    case True
    with Cons.prems have "\<forall>q\<in>set old. pkg_name q \<noteq> pkg_name p" by (auto simp: image_iff)
    with True show ?thesis by (auto simp: changed_def summary_simps)
  next
    case False
    with Cons show ?thesis by (auto simp: changed_def)
  qed
qed

lemma update_Inr:
  assumes d: "distinct (map pkg_name (packagesSet st))"
    and u: "update parse data st = (Inr rep, st')"
  shows "added rep = map summary (filter (\<lambda>p. pkg_name p \<notin> pkg_name ` set (packagesSet st)) (packagesSet st'))"
    and "removed rep = map summary (filter (\<lambda>q. pkg_name q \<notin> pkg_name ` set (packagesSet st')) (packagesSet st))"
    and "updated rep = map summary (filter (\<lambda>p. \<exists>q\<in>set (packagesSet st). pkg_name q = pkg_name p \<and>
           (pkg_sha256 q \<noteq> pkg_sha256 p \<or> \<not> js_eq (pkg_size q) (pkg_size p)
            \<or> pkg_file q \<noteq> pkg_file p)) (packagesSet st'))"
    and "distinct (map pkg_name (packagesSet st'))"
    and "\<exists>pl. parseData parse data = Inr pl \<and> setPackagesList pl st = (Inr (), st')"
proof -
  let ?m = "map (\<lambda>p. (pkg_name p, summary p)) (packagesSet st)"
  have m: "map_current [] (packages_iter st) = ?m"
    using map_current_distinct [OF d, of "[]"] by (simp add: packages_iter_def)
  from u obtain pl where pd: "parseData parse data = Inr pl"
    and sp: "setPackagesList pl st = (Inr (), st')"
    and rep: "rep = (case changes_loop ?m [] [] (packages_iter st') of
                (m', upd, add) \<Rightarrow> \<lparr>updated = upd, added = add, removed = map snd m'\<rparr>)"
    unfolding update_def m by (auto simp: Let_def split: sum.splits prod.splits)
  show d': "distinct (map pkg_name (packagesSet st'))"
    using setPackagesList_Inr(1) [OF sp] .
  show "\<exists>pl. parseData parse data = Inr pl \<and> setPackagesList pl st = (Inr (), st')"
    using pd sp by blast
  note cl = changes_loop_eq [OF d', of ?m "[]" "[]"]
  have rep': "updated rep = map summary (filter (changed ?m) (packagesSet st'))"
    "added rep = map summary (filter (\<lambda>p. map_of ?m (pkg_name p) = None) (packagesSet st'))"
    "removed rep = map snd (filter (\<lambda>kv. fst kv \<notin> pkg_name ` set (packagesSet st')) ?m)"
    unfolding rep packages_iter_def cl by simp_all
  show "added rep = map summary (filter (\<lambda>p. pkg_name p \<notin> pkg_name ` set (packagesSet st)) (packagesSet st'))"
    unfolding rep'(2) map_of_summaries_None ..
  show "removed rep = map summary (filter (\<lambda>q. pkg_name q \<notin> pkg_name ` set (packagesSet st')) (packagesSet st))"
    unfolding rep'(3) by (simp add: filter_map comp_def)
  show "updated rep = map summary (filter (\<lambda>p. \<exists>q\<in>set (packagesSet st). pkg_name q = pkg_name p \<and>
           (pkg_sha256 q \<noteq> pkg_sha256 p \<or> \<not> js_eq (pkg_size q) (pkg_size p)
            \<or> pkg_file q \<noteq> pkg_file p)) (packagesSet st'))"
    unfolding rep'(1) changed_summaries [OF d] ..
qed

lemma update_again:
  assumes d: "distinct (map pkg_name (packagesSet st))"
    and u: "update parse data st = (Inr rep, st')"
    and n: "\<forall>p\<in>set (packagesSet st'). pkg_size p \<noteq> NaN"
  shows "update parse data st' = (Inr \<lparr>updated = [], added = [], removed = []\<rparr>, st')"
proof -
  from update_Inr(4,5) [OF d u] obtain pl where d': "distinct (map pkg_name (packagesSet st'))"
    and pd: "parseData parse data = Inr pl" and sp: "setPackagesList pl st = (Inr (), st')"
    by blast
  have sp': "setPackagesList pl st' = (Inr (), st')"
    using setPackagesList_Inr(3) [OF sp] .
  let ?m = "map (\<lambda>p. (pkg_name p, summary p)) (packagesSet st')"
  have m: "map_current [] (packages_iter st') = ?m"
    using map_current_distinct [OF d', of "[]"] by (simp add: packages_iter_def)
  have c: "filter (changed ?m) (packagesSet st') = []"
  proof -
    have "\<not> changed ?m p" if "p \<in> set (packagesSet st')" for p
    proof -
      have "\<forall>q\<in>set (packagesSet st'). pkg_name q = pkg_name p \<longrightarrow> q = p"
        using d' that by (auto simp: distinct_map inj_on_def)
      moreover have "js_eq (pkg_size p) (pkg_size p)"
        using n that by (cases "pkg_size p") auto
      ultimately show ?thesis unfolding changed_summaries [OF d'] by auto
    qed
    then show ?thesis by (simp add: filter_empty_conv)
  qed
  have a: "filter (\<lambda>p. map_of ?m (pkg_name p) = None) (packagesSet st') = []"
    unfolding map_of_summaries_None by (simp add: filter_empty_conv)
  have r: "filter (\<lambda>kv. fst kv \<notin> pkg_name ` set (packagesSet st')) ?m = []"
    by (auto simp: filter_empty_conv)
  show ?thesis
    unfolding update_def m pd
    by (simp add: sp' packages_iter_def changes_loop_eq [OF d'] c a r)
qed

lemma listPackages_loop_preorder:
  "listPackages_loop r itter = r @ concat (map preorder itter)"
proof (induction r itter rule: listPackages_loop.induct)
  case (1 r)
  show ?case by simp
next
  case (2 r entry itter)
  then show ?case by (cases entry) simp
qed

lemma listPackages_preorder: "listPackages ps = concat (map preorder ps)"
  by (simp add: listPackages_def listPackages_loop_preorder)

lemma collect_Inr:
  "collect (map f xs) = Inr ys \<Longrightarrow> list_all2 (\<lambda>x y. f x = Inr y) xs ys"
proof (induction xs arbitrary: ys)
  case Nil
  then show ?case by simp
next
  case (Cons x xs)
  then show ?case
    by (cases "f x") (auto split: sum.splits)
qed

lemma concat_map_all2:
  "list_all2 R xs ys \<Longrightarrow> (\<And>x y. x \<in> set xs \<Longrightarrow> R x y \<Longrightarrow> F y = G x) \<Longrightarrow>
     concat (map F ys) = concat (map G xs)"
  by (induction rule: list_all2_induct) auto

lemma newPackage_fields:
  "newPackage info par = Inr t \<Longrightarrow>
     map (\<lambda>p. pfields (node p)) (preorder t) = map fields_of (flatten_entry info)"
proof (induction info par arbitrary: t rule: newPackage.induct)
  case (1 info par)
  let ?self = "Package (fields_of info) par"
  let ?kids = "array_prop info ''packages''"
  from "1.prems" obtain ks where
    c0: "info \<noteq> JNull"
    and c1: "\<not> (par \<noteq> None \<and> zipped_prop info = None)"
    and c2: "\<not> (par = None \<and> zipped_prop info \<noteq> None)"
    and c3: "\<not> \<not> packages_ok info"
    and col: "collect (map (\<lambda>k. newPackage k (Some ?self)) ?kids) = Inr ks"
    and t: "t = PTree ?self ks"
    by (subst (asm) newPackage.simps) (auto simp: Let_def split: if_splits sum.splits)
  have "concat (map (\<lambda>k. map (\<lambda>p. pfields (node p)) (preorder k)) ks)
      = concat (map (\<lambda>j. map fields_of (flatten_entry j)) ?kids)"
    using collect_Inr [OF col]
  proof (rule concat_map_all2)
    fix x y
    assume "x \<in> set ?kids" "newPackage x (Some ?self) = Inr y"
    then show "map (\<lambda>p. pfields (node p)) (preorder y) = map fields_of (flatten_entry x)"
      using "1.IH" [OF c0 c1 c2 c3 refl] by blast
  qed
  then show ?case
    unfolding t by (subst flatten_entry.simps) (simp add: map_concat comp_def)
qed

lemma parsePackages_fields:
  assumes "parsePackages infos = Inr ts"
  shows "map (\<lambda>p. pfields (node p)) (listPackages ts) = map fields_of (flatten_entries infos)"
proof -
  have "concat (map (\<lambda>k. map (\<lambda>p. pfields (node p)) (preorder k)) ts)
      = concat (map (\<lambda>j. map fields_of (flatten_entry j)) infos)"
    using collect_Inr [OF assms [unfolded parsePackages_def]]
    by (rule concat_map_all2) (simp add: newPackage_fields)
  then show ?thesis
    by (simp add: listPackages_preorder flatten_entries_def map_concat comp_def)
qed


lemma packagesMap_loop_distinct:
  "packagesMap_loop key err [] ps = Inr m \<Longrightarrow> distinct (map key ps)"
  by (drule packagesMap_loop_Inr) simp

lemma keys_of_flat:
  assumes "parsePackages infos = Inr ts"
  shows "map pkg_name (listPackages ts) = map (\<lambda>j. str_prop j ''name'') (flatten_entries infos)"
    and "map pkg_sha256 (listPackages ts) = map (\<lambda>j. str_prop j ''sha256'') (flatten_entries infos)"
    and "map pkg_sha1 (listPackages ts) = map (\<lambda>j. str_prop j ''sha1'') (flatten_entries infos)"
    and "map pkg_md5 (listPackages ts) = map (\<lambda>j. str_prop j ''md5'') (flatten_entries infos)"
proof -
  note f = parsePackages_fields [OF assms]
  have "map pkg_name (listPackages ts) = map p_name (map (\<lambda>p. pfields (node p)) (listPackages ts))"
    by (simp add: pkg_name_def comp_def)
  then show "map pkg_name (listPackages ts) = map (\<lambda>j. str_prop j ''name'') (flatten_entries infos)"
    unfolding f by (simp add: fields_of_def comp_def)
  have "map pkg_sha256 (listPackages ts) = map p_sha256 (map (\<lambda>p. pfields (node p)) (listPackages ts))"
    by (simp add: pkg_sha256_def comp_def)
  then show "map pkg_sha256 (listPackages ts) = map (\<lambda>j. str_prop j ''sha256'') (flatten_entries infos)"
    unfolding f by (simp add: fields_of_def comp_def)
  have "map pkg_sha1 (listPackages ts) = map p_sha1 (map (\<lambda>p. pfields (node p)) (listPackages ts))"
    by (simp add: pkg_sha1_def comp_def)
  then show "map pkg_sha1 (listPackages ts) = map (\<lambda>j. str_prop j ''sha1'') (flatten_entries infos)"
    unfolding f by (simp add: fields_of_def comp_def)
  have "map pkg_md5 (listPackages ts) = map p_md5 (map (\<lambda>p. pfields (node p)) (listPackages ts))"
    by (simp add: pkg_md5_def comp_def)
  then show "map pkg_md5 (listPackages ts) = map (\<lambda>j. str_prop j ''md5'') (flatten_entries infos)"
    unfolding f by (simp add: fields_of_def comp_def)
qed

lemma setPackagesList_Inr_valid:
  assumes "setPackagesList pl st = (Inr u, st')"
  shows "validateFormat (str_prop pl ''format'') = Inr ()"
    and "distinct (map (\<lambda>j. str_prop j ''name'') (flatten_entries (array_prop pl ''packages'')))"
    and "distinct (map (\<lambda>j. str_prop j ''sha256'') (flatten_entries (array_prop pl ''packages'')))"
    and "distinct (map (\<lambda>j. str_prop j ''sha1'') (flatten_entries (array_prop pl ''packages'')))"
    and "distinct (map (\<lambda>j. str_prop j ''md5'') (flatten_entries (array_prop pl ''packages'')))"
proof -
  from assms obtain parsed byName bySha256 bySha1 byMd5 where
    v: "validateFormat (str_prop pl ''format'') = Inr ()"
    and p: "parsePackages (array_prop pl ''packages'') = Inr parsed"
    and n: "packagesMapName (listPackages parsed) = Inr byName"
    and s2: "packagesMapSha256 (listPackages parsed) = Inr bySha256"
    and s1: "packagesMapSha1 (listPackages parsed) = Inr bySha1"
    and m5: "packagesMapMd5 (listPackages parsed) = Inr byMd5"
    unfolding setPackagesList_def by (auto simp: Let_def split: sum.splits)
  show "validateFormat (str_prop pl ''format'') = Inr ()" by (rule v)
  show "distinct (map (\<lambda>j. str_prop j ''name'') (flatten_entries (array_prop pl ''packages'')))"
    using packagesMap_loop_distinct [OF n [unfolded packagesMapName_def]]
    unfolding keys_of_flat [OF p] .
  show "distinct (map (\<lambda>j. str_prop j ''sha256'') (flatten_entries (array_prop pl ''packages'')))"
    using packagesMap_loop_distinct [OF s2 [unfolded packagesMapSha256_def]]
    unfolding keys_of_flat [OF p] .
  show "distinct (map (\<lambda>j. str_prop j ''sha1'') (flatten_entries (array_prop pl ''packages'')))"
    using packagesMap_loop_distinct [OF s1 [unfolded packagesMapSha1_def]]
    unfolding keys_of_flat [OF p] .
  show "distinct (map (\<lambda>j. str_prop j ''md5'') (flatten_entries (array_prop pl ''packages'')))"
    using packagesMap_loop_distinct [OF m5 [unfolded packagesMapMd5_def]]
    unfolding keys_of_flat [OF p] .
qed

lemma update_Inl: "update parse data st = (Inl e, st') \<Longrightarrow> st' = st"
  unfolding update_def
  by (auto simp: Let_def split: sum.splits prod.splits dest: setPackagesList_Inl)

lemma update_Inr_valid:
  assumes "update parse data st = (Inr rep, st')"
  shows "\<exists>v. parse data = Some v \<and> castData v = Inr v \<and> setPackagesList v st = (Inr (), st')"
proof -
  from assms obtain pl where pd: "parseData parse data = Inr pl"
    and sp: "setPackagesList pl st = (Inr (), st')"
    unfolding update_def by (auto simp: Let_def split: sum.splits prod.splits)
  from pd obtain v where "parse data = Some v" "castData v = Inr pl"
    by (auto simp: parseData_def split: option.splits)
  moreover from this have "pl = v" by (auto simp: castData_def split: if_splits)
  ultimately show ?thesis using sp by auto
qed

lemma setPackagesList_fields:
  assumes "setPackagesList pl st = (Inr u, st')"
  shows "map (\<lambda>p. pfields (node p)) (packagesSet st') = map fields_of (catalog_entries pl)"
proof -
  from assms obtain parsed where
    p: "parsePackages (array_prop pl ''packages'') = Inr parsed"
    and s: "packagesSet st' = listPackages parsed"
    unfolding setPackagesList_def by (auto simp: Let_def split: sum.splits)
  show ?thesis unfolding s catalog_entries_def by (rule parsePackages_fields [OF p])
qed

lemma fields_summary:
  assumes "pfields (node p) = fields_of j"
  shows "summary p = entry_summary j" "pkg_name p = str_prop j ''name''"
    "pkg_file p = str_prop j ''file''" "pkg_size p = num_prop j ''size''"
    "pkg_sha256 p = str_prop j ''sha256''"
  using assms
  by (simp_all add: summary_def entry_summary_def pkg_name_def pkg_file_def pkg_size_def
      pkg_sha256_def fields_of_def)

lemma filter_transfer:
  assumes "map f xs = map g ys"
    and "\<And>x y. f x = g y \<Longrightarrow> P x = Q y"
    and "\<And>x y. f x = g y \<Longrightarrow> h x = k y"
  shows "map h (filter P xs) = map k (filter Q ys)"
  using assms(1)
proof (induction xs arbitrary: ys)
  case Nil
  then show ?case by simp
next
  case (Cons x xs)
  then obtain y ys' where y: "ys = y # ys'" "f x = g y" "map f xs = map g ys'"
    by (cases ys) auto
  from Cons.IH [OF y(3)] assms(2) [OF y(2)] assms(3) [OF y(2)] show ?case
    unfolding y(1) by simp
qed

lemma map_transfer:
  assumes "map f xs = map g ys" and "\<And>x y. f x = g y \<Longrightarrow> h x = k y"
  shows "map h xs = map k ys"
  using filter_transfer [OF assms(1), of "\<lambda>x. True" "\<lambda>y. True" h k] assms(2) by simp

lemma well_typed_flatten:
  "well_typed_entry j \<Longrightarrow> i \<in> set (flatten_entry j) \<Longrightarrow> well_typed_entry i"
proof (induction j arbitrary: i rule: flatten_entry.induct)
  case (1 info)
  from "1.prems"(1) have k: "list_all well_typed_entry (array_prop info ''packages'')"
    by (subst (asm) well_typed_entry.simps) simp
  from "1.prems"(2) consider "i = info"
    | x where "x \<in> set (array_prop info ''packages'')" "i \<in> set (flatten_entry x)"
    by (subst (asm) flatten_entry.simps) auto
  then show ?case
  proof cases
    case 1
    with "1.prems"(1) show ?thesis by simp
  next
    case 2
    with k have "well_typed_entry x" by (simp add: list_all_iff)
    from "1.IH" [OF 2(1) this 2(2)] show ?thesis .
  qed
qed

lemma well_typed_entries:
  "well_typed_catalog v \<Longrightarrow> i \<in> set (catalog_entries v) \<Longrightarrow> well_typed_entry i"
  unfolding well_typed_catalog_def catalog_entries_def flatten_entries_def
  by (auto simp: list_all_iff dest: well_typed_flatten)

lemma well_typed_size: "well_typed_entry j \<Longrightarrow> num_prop j ''size'' \<noteq> NaN"
  by (subst (asm) well_typed_entry.simps)
    (auto simp: num_prop_def split: option.splits json.splits)

text \<open>
  Claim C6. Let the catalog be unloaded, or loaded from a parsed catalog whose entries have the
  declared types, and let \<open>update\<close> succeed on data that parse to such a catalog. Then, of the
  entries of the whole new forest in its order, \<open>added\<close> lists those whose name no old entry
  has, and \<open>updated\<close> those whose name an old entry has with another \<open>file\<close>, \<open>size\<close> or
  \<open>sha256\<close>; \<open>removed\<close> lists, in the old order, the entries of the whole old forest whose
  name no new entry has. Names are unique in both forests, so a name is in one class at most,
  and it is unchanged (also when only \<open>source\<close> differs) when it is in none. Loading the same
  data again reports nothing.
\<close>

theorem update_classifies:
  assumes "(st = new_Packages \<and> old = [])
      \<or> (\<exists>v0 st0. setPackagesList v0 st0 = (Inr (), st) \<and> well_typed_catalog v0
            \<and> old = catalog_entries v0)"
    and "parse data = Some v" and "well_typed_catalog v"
    and "update parse data st = (Inr rep, st')"
  shows "added rep =
           map entry_summary
             (filter (\<lambda>j. str_prop j ''name'' \<notin> (\<lambda>i. str_prop i ''name'') ` set old)
                (catalog_entries v))
       \<and> removed rep =
           map entry_summary
             (filter (\<lambda>i. str_prop i ''name'' \<notin> (\<lambda>j. str_prop j ''name'') ` set (catalog_entries v))
                old)
       \<and> updated rep =
           map entry_summary
             (filter (\<lambda>j. \<exists>i\<in>set old. str_prop i ''name'' = str_prop j ''name'' \<and>
                        (str_prop i ''file'' \<noteq> str_prop j ''file''
                         \<or> \<not> js_eq (num_prop i ''size'') (num_prop j ''size'')
                         \<or> str_prop i ''sha256'' \<noteq> str_prop j ''sha256''))
                (catalog_entries v))
       \<and> distinct (map (\<lambda>i. str_prop i ''name'') old)
       \<and> distinct (map (\<lambda>j. str_prop j ''name'') (catalog_entries v))
       \<and> update parse data st' = (Inr \<lparr>updated = [], added = [], removed = []\<rparr>, st')"
proof -
  let ?F = "\<lambda>p. pfields (node p)"
  let ?name = "\<lambda>j. str_prop j ''name''"
  have fo: "map ?F (packagesSet st) = map fields_of old"
    using assms(1) by (auto simp: new_Packages_def dest: setPackagesList_fields)
  have d: "distinct (map pkg_name (packagesSet st))"
    using assms(1) by (auto simp: new_Packages_def dest: setPackagesList_Inr(1))
  from update_Inr_valid [OF assms(4)] assms(2)
  have sp: "setPackagesList v st = (Inr (), st')" by simp
  have fn: "map ?F (packagesSet st') = map fields_of (catalog_entries v)"
    by (rule setPackagesList_fields [OF sp])
  have no: "map pkg_name (packagesSet st) = map ?name old"
    by (rule map_transfer [OF fo]) (simp add: fields_summary)
  have nn: "map pkg_name (packagesSet st') = map ?name (catalog_entries v)"
    by (rule map_transfer [OF fn]) (simp add: fields_summary)
  have so: "pkg_name ` set (packagesSet st) = ?name ` set old"
    using arg_cong [OF no, of set] by simp
  have sn: "pkg_name ` set (packagesSet st') = ?name ` set (catalog_entries v)"
    using arg_cong [OF nn, of set] by simp
  note r = update_Inr [OF d assms(4)]
  have 1: "added rep = map entry_summary (filter (\<lambda>j. ?name j \<notin> ?name ` set old)
      (catalog_entries v))"
    unfolding r(1) so
    by (rule filter_transfer [OF fn]) (simp_all add: fields_summary)
  have 2: "removed rep = map entry_summary
      (filter (\<lambda>i. ?name i \<notin> ?name ` set (catalog_entries v)) old)"
    unfolding r(2) sn
    by (rule filter_transfer [OF fo]) (simp_all add: fields_summary)
  have ex: "(\<exists>q\<in>set (packagesSet st). pkg_name q = n \<and>
         (pkg_sha256 q \<noteq> h \<or> \<not> js_eq (pkg_size q) z \<or> pkg_file q \<noteq> f))
     \<longleftrightarrow> (\<exists>i\<in>set old. ?name i = n \<and>
         (str_prop i ''file'' \<noteq> f \<or> \<not> js_eq (num_prop i ''size'') z
          \<or> str_prop i ''sha256'' \<noteq> h))" for n h z f
  proof -
    let ?T = "\<lambda>t. p_name t = n \<and> (p_sha256 t \<noteq> h \<or> \<not> js_eq (p_size t) z \<or> p_file t \<noteq> f)"
    have "(\<exists>q\<in>set (packagesSet st). ?T (?F q)) \<longleftrightarrow> (\<exists>t\<in>set (map ?F (packagesSet st)). ?T t)"
      by simp
    also have "\<dots> \<longleftrightarrow> (\<exists>t\<in>set (map fields_of old). ?T t)" unfolding fo ..
    also have "\<dots> \<longleftrightarrow> (\<exists>i\<in>set old. ?T (fields_of i))" by simp
    finally have "(\<exists>q\<in>set (packagesSet st). ?T (?F q)) \<longleftrightarrow> (\<exists>i\<in>set old. ?T (fields_of i))" .
    then show ?thesis
      unfolding pkg_name_def pkg_sha256_def pkg_size_def pkg_file_def
      by (auto simp: fields_of_def)
  qed
  have 3: "updated rep = map entry_summary
      (filter (\<lambda>j. \<exists>i\<in>set old. ?name i = ?name j \<and>
                        (str_prop i ''file'' \<noteq> str_prop j ''file''
                         \<or> \<not> js_eq (num_prop i ''size'') (num_prop j ''size'')
                         \<or> str_prop i ''sha256'' \<noteq> str_prop j ''sha256''))
                (catalog_entries v))"
    unfolding r(3)
  proof (rule filter_transfer [OF fn])
    fix x y
    assume xy: "?F x = fields_of y"
    show "(\<exists>q\<in>set (packagesSet st). pkg_name q = pkg_name x \<and>
           (pkg_sha256 q \<noteq> pkg_sha256 x \<or> \<not> js_eq (pkg_size q) (pkg_size x)
            \<or> pkg_file q \<noteq> pkg_file x))
       = (\<exists>i\<in>set old. ?name i = ?name y \<and>
                        (str_prop i ''file'' \<noteq> str_prop y ''file''
                         \<or> \<not> js_eq (num_prop i ''size'') (num_prop y ''size'')
                         \<or> str_prop i ''sha256'' \<noteq> str_prop y ''sha256''))"
      unfolding fields_summary [OF xy] by (rule ex)
    show "summary x = entry_summary y" by (rule fields_summary [OF xy])
  qed
  have 4: "distinct (map ?name old)" using d unfolding no .
  have 5: "distinct (map ?name (catalog_entries v))" using r(4) unfolding nn .
  have sz: "\<forall>p\<in>set (packagesSet st'). pkg_size p \<noteq> NaN"
  proof
    fix p
    assume "p \<in> set (packagesSet st')"
    then have "?F p \<in> set (map fields_of (catalog_entries v))"
      unfolding fn [symmetric] by simp
    then obtain j where j: "j \<in> set (catalog_entries v)" "?F p = fields_of j" by auto
    from well_typed_size [OF well_typed_entries [OF assms(3) j(1)]] j(2)
    show "pkg_size p \<noteq> NaN" by (simp add: fields_summary)
  qed
  from 1 2 3 4 5 update_again [OF d assms(4) sz] show ?thesis by simp
qed

text \<open>From the catalog \<open>one\<close>, loading \<open>two\<close> adds \<open>b-y\<close> and \<open>c\<close>, updates \<open>b\<close> and \<open>b-x\<close> and
  removes \<open>a\<close> and \<open>b-z\<close>: children are classified like roots. Loading \<open>two\<close> again reports
  nothing.\<close>

theorem update_classifies_witness:
  "setPackagesList example_catalog1 new_Packages = (Inr (), example_loaded)
   \<and> well_typed_catalog example_catalog1 \<and> well_typed_catalog example_catalog2
   \<and> example_parse ''two'' = Some example_catalog2
   \<and> map (\<lambda>i. str_prop i ''name'') (catalog_entries example_catalog1)
       = [''a'', ''b'', ''b-x'', ''b-z'']
   \<and> map (\<lambda>j. str_prop j ''name'') (catalog_entries example_catalog2)
       = [''b'', ''b-x'', ''b-y'', ''c'']
   \<and> (case fst (update example_parse ''two'' example_loaded) of
        Inl e \<Rightarrow> False
      | Inr rep \<Rightarrow> map u_name (added rep) = [''b-y'', ''c'']
          \<and> map u_name (updated rep) = [''b'', ''b-x'']
          \<and> map u_name (removed rep) = [''a'', ''b-z''])
   \<and> update example_parse ''two'' (snd (update example_parse ''two'' example_loaded)) =
       (Inr \<lparr>updated = [], added = [], removed = []\<rparr>,
        snd (update example_parse ''two'' example_loaded))"
proof -
  have l1: "fst (setPackagesList example_catalog1 new_Packages) = Inr ()"
    by code_simp
  have h1: "setPackagesList example_catalog1 new_Packages = (Inr (), example_loaded)"
    using l1 unfolding example_loaded_def by (metis prod.collapse)
  have w: "well_typed_catalog example_catalog1" "well_typed_catalog example_catalog2"
    by code_simp+
  have p: "example_parse ''two'' = Some example_catalog2"
    by (simp add: example_parse_def)
  have n: "map (\<lambda>i. str_prop i ''name'') (catalog_entries example_catalog1)
       = [''a'', ''b'', ''b-x'', ''b-z'']"
    "map (\<lambda>j. str_prop j ''name'') (catalog_entries example_catalog2)
       = [''b'', ''b-x'', ''b-y'', ''c'']"
    by code_simp+
  have l2: "(case fst (update example_parse ''two'' example_loaded) of
        Inl e \<Rightarrow> False
      | Inr rep \<Rightarrow> map u_name (added rep) = [''b-y'', ''c'']
          \<and> map u_name (updated rep) = [''b'', ''b-x'']
          \<and> map u_name (removed rep) = [''a'', ''b-z''])"
    by code_simp
  have h: "(example_loaded = new_Packages \<and> catalog_entries example_catalog1 = [])
      \<or> (\<exists>v0 st0. setPackagesList v0 st0 = (Inr (), example_loaded) \<and> well_typed_catalog v0
            \<and> catalog_entries example_catalog1 = catalog_entries v0)"
    using h1 w(1) by blast
  from l2 obtain rep where
    u: "update example_parse ''two'' example_loaded =
          (Inr rep, snd (update example_parse ''two'' example_loaded))"
    by (cases "update example_parse ''two'' example_loaded") (auto split: sum.splits)
  from update_classifies [OF h p w(2) u] h1 w p n l2 show ?thesis by simp
qed

text \<open>
  Claim C4. If \<open>JSON.parse\<close> throws, or the parsed value has not the shape \<open>_castData\<close> asks
  for, or its format does not pass the gate, or its entries have the declared types and a
  name, sha256, sha1 or md5 occurs twice among the entries of the whole forest, then \<open>update\<close>
  fails and the catalog (list, set and the five maps) is what it was; and whatever the error
  and whatever the data, a failed \<open>update\<close> leaves the catalog as it was.
\<close>

theorem update_all_or_nothing:
  "((parse data = None
     \<or> (\<exists>v. parse data = Some v \<and>
           (castData v = Inl FailedValidate
            \<or> validateFormat (str_prop v ''format'') \<noteq> Inr ()
            \<or> well_typed_catalog v \<and>
               (\<not> distinct (map (\<lambda>j. str_prop j ''name'') (catalog_entries v))
                \<or> \<not> distinct (map (\<lambda>j. str_prop j ''sha256'') (catalog_entries v))
                \<or> \<not> distinct (map (\<lambda>j. str_prop j ''sha1'') (catalog_entries v))
                \<or> \<not> distinct (map (\<lambda>j. str_prop j ''md5'') (catalog_entries v))))))
    \<longrightarrow> (\<exists>e. update parse data st = (Inl e, st)))
   \<and> (update parse data st = (Inl e', st') \<longrightarrow> st' = st)"
proof (intro conjI impI)
  assume bad: "parse data = None
     \<or> (\<exists>v. parse data = Some v \<and>
           (castData v = Inl FailedValidate
            \<or> validateFormat (str_prop v ''format'') \<noteq> Inr ()
            \<or> well_typed_catalog v \<and>
               (\<not> distinct (map (\<lambda>j. str_prop j ''name'') (catalog_entries v))
                \<or> \<not> distinct (map (\<lambda>j. str_prop j ''sha256'') (catalog_entries v))
                \<or> \<not> distinct (map (\<lambda>j. str_prop j ''sha1'') (catalog_entries v))
                \<or> \<not> distinct (map (\<lambda>j. str_prop j ''md5'') (catalog_entries v)))))"
  obtain r s where rs: "update parse data st = (r, s)" by (cases "update parse data st")
  show "\<exists>e. update parse data st = (Inl e, st)"
  proof (cases r)
    case (Inl e)
    with rs update_Inl [of parse data st e s] show ?thesis by auto
  next
    case (Inr rep)
    with rs obtain v where v: "parse data = Some v" "castData v = Inr v"
      "setPackagesList v st = (Inr (), s)"
      using update_Inr_valid by blast
    from setPackagesList_Inr_valid [OF v(3)] v(1,2) bad show ?thesis
      by (auto simp: catalog_entries_def)
  qed
next
  assume "update parse data st = (Inl e', st')"
  then show "st' = st" by (rule update_Inl)
qed


text \<open>Loading the catalog \<open>duplicate\<close>, whose entries have the declared types, over the loaded
  catalog \<open>one\<close> fails on the second \<open>a\<close>, a child of \<open>b\<close>, and leaves \<open>one\<close> loaded.\<close>

theorem update_all_or_nothing_witness:
  "example_parse ''duplicate'' = Some example_duplicate
   \<and> well_typed_catalog example_duplicate
   \<and> map (\<lambda>j. str_prop j ''name'') (catalog_entries example_duplicate) = [''a'', ''b'', ''a'']
   \<and> fst (update example_parse ''duplicate'' example_loaded) = Inl (DuplicateName ''a'')
   \<and> snd (update example_parse ''duplicate'' example_loaded) = example_loaded
   \<and> loaded example_loaded"
proof -
  have p: "example_parse ''duplicate'' = Some example_duplicate"
    by (simp add: example_parse_def)
  have w: "well_typed_catalog example_duplicate"
    by code_simp
  have n: "map (\<lambda>j. str_prop j ''name'') (catalog_entries example_duplicate)
      = [''a'', ''b'', ''a'']"
    by code_simp
  then have d: "\<not> distinct (map (\<lambda>j. str_prop j ''name'') (catalog_entries example_duplicate))"
    by simp
  have e: "fst (update example_parse ''duplicate'' example_loaded) = Inl (DuplicateName ''a'')"
    by code_simp
  have l: "loaded example_loaded"
    by code_simp
  from update_all_or_nothing [of example_parse "''duplicate''" example_loaded] p w d
  obtain e' where "update example_parse ''duplicate'' example_loaded = (Inl e', example_loaded)"
    by blast
  with p w n e l show ?thesis by simp
qed

subsection \<open>Requests: one retry, and no retry of a response\<close>

lemma retry_eq:
  "retry E req m =
     (case fetch_impl E (requests m) req of
        Inr res \<Rightarrow> (Inr res, m\<lparr>requests := requests m @ [req]\<rparr>)
      | Inl err \<Rightarrow> (fetch_impl E (requests m @ [req]) req, m\<lparr>requests := requests m @ [req, req]\<rparr>))"
  by (auto simp: retry_def do_fetch_def split: sum.splits)

lemma request_retry_eq:
  "request_retry E req m =
     (case fetch_impl E (requests m) req of
        Inr res \<Rightarrow> (Inr res, m\<lparr>requests := requests m @ [req]\<rparr>)
      | Inl err \<Rightarrow> (wrap_rejection (fetch_impl E (requests m @ [req]) req),
                    m\<lparr>requests := requests m @ [req, req]\<rparr>))"
  unfolding request_retry_def retry_eq wrap_rejection_def
  by (auto split: sum.splits rejection.splits)




subsection \<open>The fetch step of an install\<close>

text \<open>
  Claim C7, amended. For a slice of positive length the fetch step makes the ranged request
  \<open>bytes=start-(start+length-1)\<close> to the source of the root; a rejected request fails the
  step, and an answered one yields the body exactly when the status is 206 and the
  \<open>content-length\<close> header is absent, empty or equal to the length; otherwise the step fails.
  For a slice of length 0 the input is empty and no request is made. Without a slice the
  request is plain, and the step succeeds exactly when the status is 200 and the header is
  absent, empty or equal to the declared size of the root.
\<close>

theorem install_fetch_cases:
  "(js_lt (Num 0) sz \<and>
      request_retry E
        \<lparr>req_url = p_source (pfields srcPkg),
         req_headers = AList.update ''Range''
           (HRange start (js_sub (js_add start sz) (Num 1))) (m_headers m)\<rparr> m = (r, m')
    \<longrightarrow> install_fetch E srcPkg (Some (start, sz)) m =
        (case r of
           Inl e \<Rightarrow> (Inl e, m')
         | Inr res \<Rightarrow>
             if status res = Num 206
                \<and> (case content_length res of
                      None \<Rightarrow> True
                    | Some cl \<Rightarrow> cl = [] \<or> js_eq (Number_js cl) sz)
             then (Inr (body res), m')
             else (Inl (if status res = Num 206
                        then InvalidResumeContentLength (the (content_length res))
                               (p_source (pfields srcPkg))
                        else InvalidResumeStatus (status res) (p_source (pfields srcPkg))),
                   m')))
   \<and> install_fetch E srcPkg (Some (start, Num 0)) m = (Inr [], m)
   \<and> (request_retry E \<lparr>req_url = p_source (pfields srcPkg), req_headers = m_headers m\<rparr> m
        = (r0, m0)
    \<longrightarrow> install_fetch E srcPkg None m =
        (case r0 of
           Inl e \<Rightarrow> (Inl e, m0)
         | Inr res \<Rightarrow>
             if status res = Num 200
                \<and> (case content_length res of
                      None \<Rightarrow> True
                    | Some cl \<Rightarrow> cl = [] \<or> js_eq (Number_js cl) (p_size (pfields srcPkg)))
             then (Inr (body res), m0)
             else (Inl (if status res = Num 200
                        then InvalidDownloadContentLength (the (content_length res))
                               (p_source (pfields srcPkg))
                        else InvalidDownloadStatus (status res) (p_source (pfields srcPkg))),
                   m0)))"
proof (intro conjI impI)
  assume "js_lt (Num 0) sz \<and>
      request_retry E
        \<lparr>req_url = p_source (pfields srcPkg),
         req_headers = AList.update ''Range''
           (HRange start (js_sub (js_add start sz) (Num 1))) (m_headers m)\<rparr> m = (r, m')"
  then show "install_fetch E srcPkg (Some (start, sz)) m =
        (case r of
           Inl e \<Rightarrow> (Inl e, m')
         | Inr res \<Rightarrow>
             if status res = Num 206
                \<and> (case content_length res of
                      None \<Rightarrow> True
                    | Some cl \<Rightarrow> cl = [] \<or> js_eq (Number_js cl) sz)
             then (Inr (body res), m')
             else (Inl (if status res = Num 206
                        then InvalidResumeContentLength (the (content_length res))
                               (p_source (pfields srcPkg))
                        else InvalidResumeStatus (status res) (p_source (pfields srcPkg))),
                   m'))"
    by (cases r) (auto simp: install_fetch_def Let_def js_eq_Num check_length_def
        split: option.splits)
next
  show "install_fetch E srcPkg (Some (start, Num 0)) m = (Inr [], m)"
    by (simp add: install_fetch_def)
next
  assume "request_retry E \<lparr>req_url = p_source (pfields srcPkg), req_headers = m_headers m\<rparr> m
        = (r0, m0)"
  then show "install_fetch E srcPkg None m =
        (case r0 of
           Inl e \<Rightarrow> (Inl e, m0)
         | Inr res \<Rightarrow>
             if status res = Num 200
                \<and> (case content_length res of
                      None \<Rightarrow> True
                    | Some cl \<Rightarrow> cl = [] \<or> js_eq (Number_js cl) (p_size (pfields srcPkg)))
             then (Inr (body res), m0)
             else (Inl (if status res = Num 200
                        then InvalidDownloadContentLength (the (content_length res))
                               (p_source (pfields srcPkg))
                        else InvalidDownloadStatus (status res) (p_source (pfields srcPkg))),
                   m0))"
    by (cases r0) (auto simp: install_fetch_def Let_def js_eq_Num check_length_def
        split: option.splits)
qed

text \<open>A transport that answers 206 with \<open>content-length: 10\<close>: the ranged request for ten bytes
  from offset 5 yields the body, and the plain request fails on the status.\<close>

theorem install_fetch_cases_witness:
  "js_lt (Num 0) (Num 10)
   \<and> request_retry (example_env_status (Num 206) (Some ''10''))
       \<lparr>req_url = ''package-nested-2'',
        req_headers = [(''User-Agent'', HStr ''shockpkg''),
                       (''Range'', HRange (Num 5) (Num 14))]\<rparr> example_manager =
       (Inr \<lparr>status = Num 206, content_length = Some ''10'', body = [''01234'', ''56789''],
             res_text = ''''\<rparr>,
        example_manager\<lparr>requests :=
          [\<lparr>req_url = ''package-nested-2'',
            req_headers = [(''User-Agent'', HStr ''shockpkg''),
                           (''Range'', HRange (Num 5) (Num 14))]\<rparr>]\<rparr>)
   \<and> install_fetch (example_env_status (Num 206) (Some ''10'')) nested2 (Some (Num 5, Num 10))
       example_manager =
       (Inr [''01234'', ''56789''],
        example_manager\<lparr>requests :=
          [\<lparr>req_url = ''package-nested-2'',
            req_headers = [(''User-Agent'', HStr ''shockpkg''),
                           (''Range'', HRange (Num 5) (Num 14))]\<rparr>]\<rparr>)
   \<and> request_retry (example_env_status (Num 206) (Some ''10''))
       \<lparr>req_url = ''package-nested-2'', req_headers = [(''User-Agent'', HStr ''shockpkg'')]\<rparr>
       example_manager =
       (Inr \<lparr>status = Num 206, content_length = Some ''10'', body = [''01234'', ''56789''],
             res_text = ''''\<rparr>,
        example_manager\<lparr>requests :=
          [\<lparr>req_url = ''package-nested-2'',
            req_headers = [(''User-Agent'', HStr ''shockpkg'')]\<rparr>]\<rparr>)
   \<and> install_fetch (example_env_status (Num 206) (Some ''10'')) nested2 None example_manager =
       (Inl (InvalidDownloadStatus (Num 206) ''package-nested-2''),
        example_manager\<lparr>requests :=
          [\<lparr>req_url = ''package-nested-2'',
            req_headers = [(''User-Agent'', HStr ''shockpkg'')]\<rparr>]\<rparr>)"
proof -
  let ?E = "example_env_status (Num 206) (Some ''10'')"
  let ?res = "\<lparr>status = Num 206, content_length = Some ''10'', body = [''01234'', ''56789''],
               res_text = ''''\<rparr>"
  let ?rreq = "\<lparr>req_url = ''package-nested-2'',
                req_headers = [(''User-Agent'', HStr ''shockpkg''),
                               (''Range'', HRange (Num 5) (Num 14))]\<rparr>"
  let ?preq = "\<lparr>req_url = ''package-nested-2'',
                req_headers = [(''User-Agent'', HStr ''shockpkg'')]\<rparr>"
  have f: "\<And>h r. fetch_impl ?E h r = Inr ?res"
    by (simp add: example_env_status_def)
  have h: "m_headers example_manager = [(''User-Agent'', HStr ''shockpkg'')]"
    "requests example_manager = []"
    by (simp_all add: example_manager_def)
  have s: "p_source (pfields nested2) = ''package-nested-2''"
    by (simp add: nested2_def example_package_def)
  have n: "js_lt (Num 0) (Num 10)" "js_sub (js_add (Num 5) (Num 10)) (Num 1) = Num 14"
    "js_eq (Number_js ''10'') (Num 10)"
    by (simp_all add: js_sub_def num_defs)
  have a: "request_retry ?E ?rreq example_manager =
      (Inr ?res, example_manager\<lparr>requests := [?rreq]\<rparr>)"
    by (simp add: request_retry_eq f h)
  have b: "request_retry ?E ?preq example_manager =
      (Inr ?res, example_manager\<lparr>requests := [?preq]\<rparr>)"
    by (simp add: request_retry_eq f h)
  from install_fetch_cases [of "Num 10" ?E nested2 "Num 5" example_manager
      "Inr ?res" "example_manager\<lparr>requests := [?rreq]\<rparr>"
      "Inr ?res" "example_manager\<lparr>requests := [?preq]\<rparr>"] a b n h s
  show ?thesis by simp
qed

text \<open>
  Claim C7 as stated fails for a header that is present and empty: \<open>cl && +cl !== size\<close> is
  falsy for \<open>cl = ''\<close>, so the answer is accepted although \<open>Number('')\<close> is 0 and ten bytes
  were requested.
\<close>

theorem install_fetch_empty_length_counterexample:
  "fetch_impl (example_env_status (Num 206) (Some '''')) []
       \<lparr>req_url = ''package-nested-2'',
        req_headers = [(''User-Agent'', HStr ''shockpkg''),
                       (''Range'', HRange (Num 5) (Num 14))]\<rparr> =
       Inr \<lparr>status = Num 206, content_length = Some '''', body = [''01234'', ''56789''],
            res_text = ''''\<rparr>
   \<and> Number_js '''' = Num 0
   \<and> install_fetch (example_env_status (Num 206) (Some '''')) nested2 (Some (Num 5, Num 10))
       example_manager =
       (Inr [''01234'', ''56789''],
        example_manager\<lparr>requests :=
          [\<lparr>req_url = ''package-nested-2'',
            req_headers = [(''User-Agent'', HStr ''shockpkg''),
                           (''Range'', HRange (Num 5) (Num 14))]\<rparr>]\<rparr>)"
  by (simp add: install_fetch_def request_retry_def retry_def do_fetch_def check_length_def
      example_env_status_def example_manager_def nested2_def example_package_def js_sub_def
      num_defs Let_def)

subsection \<open>Receipts that cannot be read\<close>

text \<open>
  Claim C10. With the list loaded and the package resolved, when reading the receipt file
  fails for any reason, or its content is refused by \<open>JSON.parse\<close>, \<open>receipt\<close> throws
  \<open>Package is not installed\<close>, and \<open>isInstalled\<close> and \<open>isCurrent\<close> return \<open>false\<close>; no error
  of the read or of the parse reaches the caller.
\<close>

theorem receipt_failure_not_installed:
  assumes "ensureLoaded E m = (Inr (), m')"
    and "asPackage m' pkg = Inr p"
    and "readFile (fs m') (pathToPackageMeta m' (PkgStr (pkg_name p)) [PACKAGE_FILE]) = Inl e
         \<or> (\<exists>s. readFile (fs m') (pathToPackageMeta m' (PkgStr (pkg_name p)) [PACKAGE_FILE]) = Inr s
                \<and> JSON_parse E s = None)"
  shows "receipt E (PkgObj p) m = (Inl (NotInstalled (pkg_name p)), m')
       \<and> isInstalled E pkg m = (Inr False, m')
       \<and> isCurrent E pkg m = (Inr False, m')"
proof -
  have r: "receipt_read E m' (PkgObj p) = Inl (NotInstalled (pkg_name p))"
    using assms(3) by (auto simp: receipt_read_def asName_def Let_def)
  show ?thesis
    using assms(1,2) r
    by (simp add: receipt_def isInstalled_def isCurrent_def isCurrent_loaded_def)
qed

text \<open>On the example the receipt of \<open>a\<close> is not JSON.\<close>

theorem receipt_failure_not_installed_witness:
  "ensureLoaded example_env example_manager = (Inr (), example_manager)
   \<and> asPackage example_manager (PkgStr ''a'') = Inr example_a
   \<and> readFile (fs example_manager)
       (pathToPackageMeta example_manager (PkgStr (pkg_name example_a)) [PACKAGE_FILE])
     = Inr ''old receipt''
   \<and> JSON_parse example_env ''old receipt'' = None
   \<and> receipt example_env (PkgObj example_a) example_manager =
       (Inl (NotInstalled ''a''), example_manager)
   \<and> isInstalled example_env (PkgStr ''a'') example_manager = (Inr False, example_manager)
   \<and> isCurrent example_env (PkgStr ''a'') example_manager = (Inr False, example_manager)"
proof -
  have l: "loaded (m_packages example_manager)"
    unfolding example_manager_def by code_simp
  have a: "ensureLoaded example_env example_manager = (Inr (), example_manager)"
    using l by (simp add: ensureLoaded_def ensureLoad_def)
  have b: "asPackage example_manager (PkgStr ''a'') = Inr example_a"
    unfolding example_manager_def example_a_def by code_simp
  have n: "pkg_name example_a = ''a''"
    unfolding example_a_def by code_simp
  have c: "readFile (fs example_manager)
       (pathToPackageMeta example_manager (PkgStr (pkg_name example_a)) [PACKAGE_FILE])
     = Inr ''old receipt''"
    unfolding n unfolding example_manager_def by code_simp
  have d: "JSON_parse example_env ''old receipt'' = None"
    by (simp add: example_env_def example_parse_def)
  from receipt_failure_not_installed [of example_env example_manager example_manager
      "PkgStr ''a''" example_a] a b c d n
  show ?thesis by simp
qed

subsection \<open>Install: commit after verification\<close>

subsection \<open>Install: commit after verification\<close>








lemma do_op_Inl: "do_op op m = (Inl e, m') \<Longrightarrow> m' = m"
  by (auto simp: do_op_def split: sum.splits)




lemma keeps_outside_iff:
  "keeps_outside d f f' \<longleftrightarrow>
     (\<forall>q e. map_of f q = Some e \<and> \<not> prefix d q \<longrightarrow> map_of f' q = Some e)"
proof
  assume k: "keeps_outside d f f'"
  show "\<forall>q e. map_of f q = Some e \<and> \<not> prefix d q \<longrightarrow> map_of f' q = Some e"
  proof (intro allI impI)
    fix q e
    assume a: "map_of f q = Some e \<and> \<not> prefix d q"
    then have "(q, e) \<in> set f" by (auto dest: map_of_SomeD)
    then have "q \<in> set (map fst f)" by force
    with k have "prefix d q \<or> map_of f' q = map_of f q"
      by (auto simp: keeps_outside_def list_all_iff)
    with a show "map_of f' q = Some e" by simp
  qed
next
  assume a: "\<forall>q e. map_of f q = Some e \<and> \<not> prefix d q \<longrightarrow> map_of f' q = Some e"
  show "keeps_outside d f f'"
    unfolding keeps_outside_def list_all_iff
  proof
    fix q
    assume "q \<in> set (map fst f)"
    then have "q \<in> fst ` set f" by simp
    then have "map_of f q \<noteq> None" by (simp add: map_of_eq_None_iff)
    then obtain e where "map_of f q = Some e" by auto
    with a show "prefix d q \<or> map_of f' q = map_of f q" by (cases "prefix d q") auto
  qed
qed


lemma keeps_outside_trans:
  "keeps_outside d f f1 \<Longrightarrow> keeps_outside d f1 f2 \<Longrightarrow> keeps_outside d f f2"
  by (auto simp: keeps_outside_iff)










lemma pathJoin_append: "pathJoin (pathJoin p xs) ys = pathJoin p (xs @ ys)"
  by (simp add: pathJoin_def)















lemma install_verify_error: "install_verify E pkg w d = Inl e \<Longrightarrow> is_mismatch e"
  by (auto simp: install_verify_def is_mismatch_def split: if_splits)





























end
